theory Spec2Isabelle
  imports Complex_Main "HOL-Library.Product_Lexorder" "HOL-Library.Multiset"
begin

section \<open>NEXO event matching: the matching core of \<open>matching_algorithm.py\<close>\<close>

text \<open>
  The development follows the class \<open>NEXOEventMatcher\<close>: the compatibility scorer, the
  three-pass match generator, the greedy first-fit scheduler and the statistics
  aggregator. Python dictionaries with a fixed set of keys are records; a key read with
  \<open>d.get(k, default)\<close> is an optional field, a key read with \<open>d[k]\<close> is a mandatory one.
  The compatibility scores, and what is computed from them, are modelled as exact real
  numbers: their binary rounding is outside the model. The scheduling efficiency, which
  is computed from two integers, is modelled in double arithmetic (see \<open>binary64\<close>).
\<close>

subsection \<open>Data model\<close>

text \<open>
  A buyer dictionary. \<open>id\<close> and \<open>name\<close> are read with \<open>buyer['id']\<close> and \<open>buyer['name']\<close>;
  every other key the core reads is read with \<open>buyer.get\<close>.
\<close>

record buyer =
  b_id :: string
  b_name :: string
  b_company :: "string option"
  b_investment_amount :: "int option"
  b_locations :: "int option"
  b_facility_type :: "string option"
  b_sponsorship_tier :: "string option"
  b_interests :: "string list option"
  b_selected_sellers :: "string list option"
  b_region :: "string option"

record seller =
  s_id :: string
  s_name :: string
  s_company :: "string option"
  s_products :: "string list option"
  s_selected_buyers :: "string list option"
  s_region :: "string option"

text \<open>The attribute \<open>self.compatibility_weights\<close>, a dictionary with five fixed keys.\<close>

record weights =
  interest_alignment :: real
  investment_factor :: real
  company_size :: real
  facility_type :: real
  existing_client :: real

text \<open>The weights that \<open>__init__\<close> installs.\<close>

definition default_weights :: weights where
  "default_weights =
     \<lparr> interest_alignment = 40 / 100, investment_factor = 25 / 100,
       company_size = 20 / 100, facility_type = 10 / 100, existing_client = 5 / 100 \<rparr>"

text \<open>\<open>d.get(k, default)\<close> on an optional field.\<close>

definition get_or :: "'a \<Rightarrow> 'a option \<Rightarrow> 'a" where
  "get_or d v = (case v of None \<Rightarrow> d | Some x \<Rightarrow> x)"

subsection \<open>Compatibility scorer\<close>

definition interest_score :: "buyer \<Rightarrow> seller \<Rightarrow> real" where
  "interest_score b s =
     (let buyer_interests = set (get_or [] (b_interests b));
          seller_products = set (get_or [] (s_products s));
          interest_overlap = card (buyer_interests \<inter> seller_products);
          max_interests = max (max (card buyer_interests) (card seller_products)) 1
      in real interest_overlap / real max_interests)"

definition investment_score :: "buyer \<Rightarrow> real" where
  "investment_score b =
     (let investment = get_or 0 (b_investment_amount b)
      in if investment \<ge> 100000000 then 1
         else if investment \<ge> 50000000 then 8 / 10
         else if investment \<ge> 10000000 then 6 / 10
         else if investment \<ge> 1000000 then 4 / 10
         else 2 / 10)"

definition size_score :: "buyer \<Rightarrow> real" where
  "size_score b =
     (let locations = get_or 1 (b_locations b)
      in if locations \<ge> 5 then 1
         else if locations \<ge> 3 then 8 / 10
         else if locations \<ge> 2 then 6 / 10
         else 4 / 10)"

definition facility_score :: "buyer \<Rightarrow> seller \<Rightarrow> real" where
  "facility_score b s =
     (let ft = b_facility_type b; products = get_or [] (s_products s)
      in if ft \<in> {Some ''Gym Chain'', Some ''Premium Gym''}
         then (if ''Equipment'' \<in> set products then 1 else 5 / 10)
         else if ft \<in> {Some ''Wellness Center'', Some ''Corporate Wellness''}
         then (if ''Wellness'' \<in> set products then 1 else 5 / 10)
         else if ft = Some ''Boutique Studio''
         then (if ''Technology'' \<in> set products then 1 else 5 / 10)
         else 5 / 10)"

text \<open>The running sum \<open>score\<close> before the final scaling and cap.\<close>

definition weighted_sum :: "weights \<Rightarrow> buyer \<Rightarrow> seller \<Rightarrow> real" where
  "weighted_sum w b s =
     0 + interest_score b s * interest_alignment w
       + investment_score b * investment_factor w
       + size_score b * company_size w
       + facility_score b s * facility_type w
       + (5 / 10) * existing_client w"

definition calculate_compatibility_score :: "weights \<Rightarrow> buyer \<Rightarrow> seller \<Rightarrow> real" where
  "calculate_compatibility_score w b s = min (weighted_sum w b s * 100) 100"

text \<open>
  The caller in \<open>app.py\<close> (\<open>show_generate_matches\<close>) replaces the matcher's weights by the
  slider values divided by their total when the total is positive, and leaves the
  defaults otherwise. The matcher itself never rescales its weights.
\<close>

definition weights_total :: "weights \<Rightarrow> real" where
  "weights_total w =
     interest_alignment w + investment_factor w + company_size w + facility_type w
       + existing_client w"

definition app_install_weights :: "weights \<Rightarrow> weights" where
  "app_install_weights sl =
     (let total_weight = weights_total sl
      in if total_weight > 0
         then \<lparr> interest_alignment = interest_alignment sl / total_weight,
                investment_factor = investment_factor sl / total_weight,
                company_size = company_size sl / total_weight,
                facility_type = facility_type sl / total_weight,
                existing_client = existing_client sl / total_weight \<rparr>
         else default_weights)"

definition nonneg_weights :: "weights \<Rightarrow> bool" where
  "nonneg_weights w \<longleftrightarrow>
     0 \<le> interest_alignment w \<and> 0 \<le> investment_factor w \<and> 0 \<le> company_size w \<and>
     0 \<le> facility_type w \<and> 0 \<le> existing_client w"

subsection \<open>Matches and the errors the generator can raise\<close>

text \<open>
  The field \<open>match_type\<close> of the dataclass \<open>Match\<close> holds one of three strings; it is an
  enumeration here, so the icon lookup of the scheduler's log line is total.
\<close>

datatype match_type = double_match | seller_choice | ai_suggestion

record match =
  buyer_id :: string
  seller_id :: string
  match_type :: match_type
  compatibility_score :: real
  meeting_scheduled :: bool
  time_slot :: "string option"
  priority :: int

datatype error = ZeroDivisionError | KeyError

text \<open>The constructor call \<open>Match(buyer_id=.., seller_id=.., match_type=.., ..)\<close>.\<close>

definition new_match :: "string \<Rightarrow> string \<Rightarrow> match_type \<Rightarrow> real \<Rightarrow> int \<Rightarrow> match" where
  "new_match bid sid ty c p =
     \<lparr> buyer_id = bid, seller_id = sid, match_type = ty, compatibility_score = c,
       meeting_scheduled = False, time_slot = None, priority = p \<rparr>"

subsection \<open>Match generator\<close>

text \<open>
  The two accumulators of \<open>find_matches\<close>: the list \<open>all_matches\<close> and the dictionary
  \<open>buyer_meetings\<close> from buyer id to that buyer's matches.
\<close>

record gen_state =
  all_matches :: "match list"
  buyer_meetings :: "string \<rightharpoonup> match list"

text \<open>A \<open>for\<close> loop whose body may raise: the first error ends the loop.\<close>

fun for_each :: "('a \<Rightarrow> 's \<Rightarrow> error + 's) \<Rightarrow> 'a list \<Rightarrow> 's \<Rightarrow> error + 's" where
  "for_each f [] st = Inr st"
| "for_each f (x # xs) st =
     (case f x st of Inl e \<Rightarrow> Inl e | Inr st' \<Rightarrow> for_each f xs st')"

text \<open>
  \<open>all_matches.append(match); buyer_meetings[match.buyer_id].append(match)\<close>.
  The subscript raises KeyError on a missing key.
\<close>

definition record_match :: "match \<Rightarrow> gen_state \<Rightarrow> error + gen_state" where
  "record_match m st =
     (case buyer_meetings st (buyer_id m) of
        None \<Rightarrow> Inl KeyError
      | Some ms \<Rightarrow>
          Inr \<lparr> all_matches = all_matches st @ [m],
                buyer_meetings = (buyer_meetings st)(buyer_id m \<mapsto> ms @ [m]) \<rparr>)"

text \<open>Step 1, the body of the inner loop over sellers.\<close>

definition double_match_step ::
  "weights \<Rightarrow> buyer \<Rightarrow> seller \<Rightarrow> gen_state \<Rightarrow> error + gen_state" where
  "double_match_step w b s st =
     (let buyer_selections = set (get_or [] (b_selected_sellers b));
          seller_selections = set (get_or [] (s_selected_buyers s))
      in if b_id b \<in> seller_selections \<and> s_id s \<in> buyer_selections
         then record_match
                (new_match (b_id b) (s_id s) double_match
                   (calculate_compatibility_score w b s) 1) st
         else Inr st)"

definition process_double_matches ::
  "weights \<Rightarrow> buyer list \<Rightarrow> seller list \<Rightarrow> gen_state \<Rightarrow> error + gen_state" where
  "process_double_matches w buyers sellers st =
     for_each (\<lambda>b. for_each (double_match_step w b) sellers) buyers st"

text \<open>
  Step 2, the body of the inner loop over the seller's selection set.
  \<open>next((b for b in buyers if b['id'] == buyer_id), None)\<close> is \<open>find\<close>, \<open>any(..)\<close> is
  \<open>list_ex\<close>.
\<close>

definition seller_choice_step ::
  "weights \<Rightarrow> buyer list \<Rightarrow> seller \<Rightarrow> string \<Rightarrow> gen_state \<Rightarrow> error + gen_state" where
  "seller_choice_step w buyers s bid st =
     (case find (\<lambda>b. b_id b = bid) buyers of
        None \<Rightarrow> Inr st
      | Some b \<Rightarrow>
          (case buyer_meetings st bid of
             None \<Rightarrow> Inl KeyError
           | Some ms \<Rightarrow>
               if list_ex (\<lambda>m. buyer_id m = bid \<and> seller_id m = s_id s) ms then Inr st
               else if length ms < 5
               then record_match
                      (new_match bid (s_id s) seller_choice
                         (calculate_compatibility_score w b s) 2) st
               else Inr st))"

text \<open>
  Step 2 iterates over a Python set of strings, whose iteration order the language does
  not fix. The order is the parameter \<open>iter\<close>: it maps the list the set was built from
  to the sequence in which the \<open>for\<close> loop visits the set.
\<close>

definition process_seller_choices ::
  "(string list \<Rightarrow> string list) \<Rightarrow> weights \<Rightarrow> buyer list \<Rightarrow> seller list \<Rightarrow>
     gen_state \<Rightarrow> error + gen_state" where
  "process_seller_choices iter w buyers sellers st =
     for_each
       (\<lambda>s. for_each (seller_choice_step w buyers s)
               (iter (get_or [] (s_selected_buyers s))))
       sellers st"

text \<open>
  Step 3, the body of the loop over buyers. \<open>list.sort(key=.., reverse=True)\<close> is stable
  and keeps the original order of equal keys, as an ascending stable sort on the negated
  key does. The keys are the real-valued scores: two sellers whose exact scores are equal
  can get doubles that differ in the last place, and the program then ranks them by
  those. No statement below depends on which of such sellers comes first.
\<close>

definition ai_candidates :: "weights \<Rightarrow> buyer \<Rightarrow> seller list \<Rightarrow> match list \<Rightarrow> (seller \<times> real) list" where
  "ai_candidates w b sellers ms =
     (let matched_seller_ids = set (map seller_id ms);
          available_sellers = filter (\<lambda>s. s_id s \<notin> matched_seller_ids) sellers;
          compatibility_scores =
            map (\<lambda>s. (s, calculate_compatibility_score w b s)) available_sellers
      in sort_key (\<lambda>x. - snd x) compatibility_scores)"

definition ai_step ::
  "weights \<Rightarrow> seller list \<Rightarrow> buyer \<Rightarrow> gen_state \<Rightarrow> error + gen_state" where
  "ai_step w sellers b st =
     (case buyer_meetings st (b_id b) of
        None \<Rightarrow> Inl KeyError
      | Some ms \<Rightarrow>
          (let current_meetings = length ms
           in if current_meetings < 5
              then (let needed_meetings = 5 - current_meetings
                    in for_each
                         (\<lambda>x. record_match
                                 (new_match (b_id b) (s_id (fst x)) ai_suggestion (snd x) 3))
                         (take needed_meetings (ai_candidates w b sellers ms)) st)
              else Inr st))"

definition process_ai_suggestions ::
  "weights \<Rightarrow> buyer list \<Rightarrow> seller list \<Rightarrow> gen_state \<Rightarrow> error + gen_state" where
  "process_ai_suggestions w buyers sellers st = for_each (ai_step w sellers) buyers st"

text \<open>
  The summary printed before the return divides by \<open>total = len(all_matches)\<close> without a
  guard: \<open>double_matches/total*100\<close> raises ZeroDivisionError when no match was made.
\<close>

definition print_summary :: "gen_state \<Rightarrow> error + match list" where
  "print_summary st =
     (let total = length (all_matches st)
      in if total = 0 then Inl ZeroDivisionError else Inr (all_matches st))"

definition initial_state :: "buyer list \<Rightarrow> gen_state" where
  "initial_state buyers =
     \<lparr> all_matches = [], buyer_meetings = map_of (map (\<lambda>b. (b_id b, [])) buyers) \<rparr>"

definition find_matches ::
  "(string list \<Rightarrow> string list) \<Rightarrow> weights \<Rightarrow> buyer list \<Rightarrow> seller list \<Rightarrow>
     error + match list" where
  "find_matches iter w buyers sellers =
     (case process_double_matches w buyers sellers (initial_state buyers) of
        Inl e \<Rightarrow> Inl e
      | Inr st1 \<Rightarrow>
          (case process_seller_choices iter w buyers sellers st1 of
             Inl e \<Rightarrow> Inl e
           | Inr st2 \<Rightarrow>
               (case process_ai_suggestions w buyers sellers st2 of
                  Inl e \<Rightarrow> Inl e
                | Inr st3 \<Rightarrow> print_summary st3)))"

subsection \<open>Scheduler\<close>

record timeslot =
  slot_id :: string
  slot_date :: string
  slot_time :: string
  slot_duration :: int

text \<open>The meeting dictionary that \<open>create_schedule\<close> builds.\<close>

record meeting =
  mtg_buyer_id :: string
  mtg_seller_id :: string
  mtg_time_slot :: string
  mtg_date :: string
  mtg_time :: string
  mtg_duration :: int
  mtg_match_type :: match_type
  mtg_compatibility_score :: real
  mtg_priority :: int

definition new_meeting :: "match \<Rightarrow> timeslot \<Rightarrow> meeting" where
  "new_meeting m t =
     \<lparr> mtg_buyer_id = buyer_id m, mtg_seller_id = seller_id m, mtg_time_slot = slot_id t,
       mtg_date = slot_date t, mtg_time = slot_time t, mtg_duration = slot_duration t,
       mtg_match_type = match_type m, mtg_compatibility_score = compatibility_score m,
       mtg_priority = priority m \<rparr>"

text \<open>
  The state of the scheduling loop. The \<open>Match\<close> objects are mutated in place, and the
  caller's list holds the same objects as the sorted copy: \<open>marked\<close> is the caller's list,
  and each match is processed together with its position in it. Every position occurs
  once in the sorted copy, so the object at a position is unchanged until its turn.
\<close>

record sched_state =
  scheduled_meetings :: "meeting list"
  buyer_schedule :: "string \<rightharpoonup> string list"
  seller_schedule :: "string \<rightharpoonup> string list"
  marked :: "match list"

text \<open>\<open>sorted(matches, key=lambda x: (x.priority, -x.compatibility_score))\<close>, a stable sort.\<close>

definition sorted_matches :: "match list \<Rightarrow> (nat \<times> match) list" where
  "sorted_matches matches =
     sort_key (\<lambda>x. (priority (snd x), - compatibility_score (snd x)))
       (zip [0 ..< length matches] matches)"

text \<open>
  The inner loop over the time slots: the first slot, in the given order, at which both
  the buyer and the seller are available; the loop leaves with \<open>break\<close> there.
\<close>

definition find_slot :: "sched_state \<Rightarrow> match \<Rightarrow> timeslot list \<Rightarrow> timeslot option" where
  "find_slot st m time_slots =
     find (\<lambda>t. slot_id t \<notin> set (get_or [] (buyer_schedule st (buyer_id m))) \<and>
               slot_id t \<notin> set (get_or [] (seller_schedule st (seller_id m))))
       time_slots"

definition schedule_step :: "timeslot list \<Rightarrow> nat \<times> match \<Rightarrow> sched_state \<Rightarrow> sched_state" where
  "schedule_step time_slots im st =
     (let i = fst im; m = snd im
      in case find_slot st m time_slots of
           None \<Rightarrow> st
         | Some t \<Rightarrow>
             \<lparr> scheduled_meetings = scheduled_meetings st @ [new_meeting m t],
               buyer_schedule =
                 (buyer_schedule st)
                   (buyer_id m \<mapsto> get_or [] (buyer_schedule st (buyer_id m)) @ [slot_id t]),
               seller_schedule =
                 (seller_schedule st)
                   (seller_id m \<mapsto> get_or [] (seller_schedule st (seller_id m)) @ [slot_id t]),
               marked =
                 (marked st)[i := m\<lparr>meeting_scheduled := True, time_slot := Some (slot_id t)\<rparr>] \<rparr>)"

fun schedule_loop :: "timeslot list \<Rightarrow> (nat \<times> match) list \<Rightarrow> sched_state \<Rightarrow> sched_state" where
  "schedule_loop time_slots [] st = st"
| "schedule_loop time_slots (im # ims) st =
     schedule_loop time_slots ims (schedule_step time_slots im st)"

text \<open>
  \<open>create_schedule\<close> returns the meeting list; the second component is the caller's match
  list after the call, with the marks the scheduler has set.
\<close>

definition create_schedule :: "match list \<Rightarrow> timeslot list \<Rightarrow> meeting list \<times> match list" where
  "create_schedule matches time_slots =
     (let st = schedule_loop time_slots (sorted_matches matches)
                 \<lparr> scheduled_meetings = [], buyer_schedule = Map.empty,
                   seller_schedule = Map.empty, marked = matches \<rparr>
      in (scheduled_meetings st, marked st))"

text \<open>
  The scheduler as the specification words it: a match goes to the first slot at which
  no meeting placed so far has its buyer or its seller; placed meetings are never
  touched again. The processing order is the one of \<open>sorted_matches\<close>.
\<close>

definition holds_meeting :: "meeting list \<Rightarrow> match \<Rightarrow> string \<Rightarrow> bool" where
  "holds_meeting mtgs m sl \<longleftrightarrow>
     list_ex (\<lambda>g. mtg_time_slot g = sl \<and>
                  (mtg_buyer_id g = buyer_id m \<or> mtg_seller_id g = seller_id m)) mtgs"

definition first_free_slot :: "meeting list \<Rightarrow> match \<Rightarrow> timeslot list \<Rightarrow> timeslot option" where
  "first_free_slot mtgs m time_slots = find (\<lambda>t. \<not> holds_meeting mtgs m (slot_id t)) time_slots"

fun greedy_first_fit ::
  "timeslot list \<Rightarrow> (nat \<times> match) list \<Rightarrow> meeting list \<times> match list \<Rightarrow>
     meeting list \<times> match list" where
  "greedy_first_fit time_slots [] acc = acc"
| "greedy_first_fit time_slots (im # ims) acc =
     (case first_free_slot (fst acc) (snd im) time_slots of
        None \<Rightarrow> greedy_first_fit time_slots ims acc
      | Some t \<Rightarrow>
          greedy_first_fit time_slots ims
            (fst acc @ [new_meeting (snd im) t],
             (snd acc)[fst im := (snd im)\<lparr>meeting_scheduled := True,
                                           time_slot := Some (slot_id t)\<rparr>]))"

text \<open>Priority ascending, then compatibility score descending.\<close>

definition schedule_order :: "match \<Rightarrow> match \<Rightarrow> bool" where
  "schedule_order x y \<longleftrightarrow>
     priority x < priority y \<or>
     (priority x = priority y \<and> compatibility_score y \<le> compatibility_score x)"

subsection \<open>Statistics aggregator\<close>

text \<open>
  Rounding to the nearest integer, a tie going to the even one, and with it the decimal
  rounding inside \<open>round(x, 2)\<close>: the nearest multiple of \<open>1/100\<close> of the exact value of \<open>x\<close>.
\<close>

definition round_half_even :: "real \<Rightarrow> int" where
  "round_half_even x =
     (let f = \<lfloor>x\<rfloor>; d = x - of_int f
      in if d < 1 / 2 then f else if 1 / 2 < d then f + 1
         else if even f then f else f + 1)"

definition round2 :: "real \<Rightarrow> real" where
  "round2 x = of_int (round_half_even (x * 100)) / 100"

text \<open>
  Double arithmetic. \<open>binary64 x\<close> is the double nearest to \<open>x\<close>, a tie going to the even
  significand: \<open>x\<close> is scaled by a power of two to 53 significant bits, rounded to an
  integer and scaled back. The binary exponent is found by halving or doubling, at most
  1100 times. Overflow and subnormal numbers are not modelled; the values that occur
  below stay far from both. An arithmetic operation on doubles returns the double
  nearest to the exact result, and \<open>round(x, 2)\<close> returns the double nearest to the decimal
  rounding of \<open>x\<close>.
\<close>

definition pow2 :: "int \<Rightarrow> real" where
  "pow2 k = (if 0 \<le> k then 2 ^ nat k else 1 / 2 ^ nat (- k))"

fun ilog2_fuel :: "nat \<Rightarrow> real \<Rightarrow> int" where
  "ilog2_fuel 0 x = 0"
| "ilog2_fuel (Suc n) x =
     (if 2 \<le> x then ilog2_fuel n (x / 2) + 1
      else if x < 1 then ilog2_fuel n (2 * x) - 1
      else 0)"

definition exponent :: "real \<Rightarrow> int" where
  "exponent x = ilog2_fuel 1100 \<bar>x\<bar>"

definition binary64 :: "real \<Rightarrow> real" where
  "binary64 x =
     (if x = 0 then 0
      else (let e = exponent x
            in of_int (round_half_even (x * pow2 (52 - e))) * pow2 (e - 52)))"

text \<open>The counting loop \<open>d[k] = d.get(k, 0) + 1\<close> over the keys \<open>ks\<close>.\<close>

fun count_keys :: "'k list \<Rightarrow> ('k \<rightharpoonup> int) \<Rightarrow> ('k \<rightharpoonup> int)" where
  "count_keys [] d = d"
| "count_keys (k # ks) d = count_keys ks (d(k \<mapsto> get_or 0 (d k) + 1))"

text \<open>
  The dictionary of statistics. The keys of \<open>priority_distribution\<close> are the strings
  \<open>'Priority n'\<close>; here the key is \<open>n\<close>.
\<close>

record stats =
  total_matches :: int
  stat_scheduled_meetings :: int
  unscheduled_matches :: int
  scheduling_efficiency :: real
  average_compatibility :: real
  match_type_distribution :: "match_type \<rightharpoonup> int"
  priority_distribution :: "int \<rightharpoonup> int"
  unique_buyers_matched :: int
  unique_sellers_matched :: int

text \<open>
  The result is the dictionary \<open>{'error': 'No matches found'}\<close> on an empty match list
  and the dictionary of statistics otherwise. \<open>scheduled_count / total_matches\<close> divides
  two integers and returns the double nearest to the quotient; the product with 100 and
  \<open>round(.., 2)\<close> follow in double arithmetic. The average compatibility is computed from
  the scores and is a real number like them.
\<close>

datatype stats_result = is_error_dict: ErrorDict (error_text: string) | StatsDict (the_stats: stats)

definition get_matching_statistics :: "match list \<Rightarrow> meeting list \<Rightarrow> stats_result" where
  "get_matching_statistics matches meetings =
     (if matches = [] then ErrorDict ''No matches found''
      else
        (let match_types = count_keys (map match_type matches) Map.empty;
             compatibility_scores = map compatibility_score matches;
             avg_compatibility =
               sum_list compatibility_scores / real (length compatibility_scores);
             scheduled_count = int (length meetings);
             total = int (length matches);
             efficiency =
               (if total > 0
                then binary64
                       (binary64 (real_of_int scheduled_count / real_of_int total) * 100)
                else 0);
             priority_dist = count_keys (map priority matches) Map.empty
         in StatsDict
              \<lparr> total_matches = total,
                stat_scheduled_meetings = scheduled_count,
                unscheduled_matches = total - scheduled_count,
                scheduling_efficiency = binary64 (round2 efficiency),
                average_compatibility = round2 avg_compatibility,
                match_type_distribution = match_types,
                priority_distribution = priority_dist,
                unique_buyers_matched = int (card (set (map buyer_id matches))),
                unique_sellers_matched = int (card (set (map seller_id matches))) \<rparr>))"

subsection \<open>Invariants used in the proofs\<close>

text \<open>The (buyer id, seller id) pair of a match.\<close>

definition pair_of :: "match \<Rightarrow> string \<times> string" where
  "pair_of m = (buyer_id m, seller_id m)"

text \<open>
  The generator's invariant: every entry of \<open>buyer_meetings\<close> lists exactly the matches of
  that buyer in \<open>all_matches\<close>, in order, and no pair occurs twice in \<open>all_matches\<close>.
\<close>

definition gen_inv :: "gen_state \<Rightarrow> bool" where
  "gen_inv st \<longleftrightarrow>
     (\<forall>k ms. buyer_meetings st k = Some ms \<longrightarrow>
        ms = filter (\<lambda>m. buyer_id m = k) (all_matches st))"

definition gen_ok :: "gen_state \<Rightarrow> bool" where
  "gen_ok st \<longleftrightarrow> gen_inv st \<and> distinct (map pair_of (all_matches st))"

text \<open>The keys of \<open>buyer_meetings\<close> stay the buyer ids it was built from.\<close>

definition gen_dom :: "string set \<Rightarrow> gen_state \<Rightarrow> bool" where
  "gen_dom D st \<longleftrightarrow> dom (buyer_meetings st) = D \<and> gen_inv st"

text \<open>
  The scheduler's invariant: the two schedule dictionaries hold, for every participant,
  the slots of the meetings placed so far.
\<close>

definition sched_inv :: "sched_state \<Rightarrow> bool" where
  "sched_inv st \<longleftrightarrow>
     (\<forall>b sl. sl \<in> set (get_or [] (buyer_schedule st b)) \<longleftrightarrow>
        (\<exists>g \<in> set (scheduled_meetings st). mtg_buyer_id g = b \<and> mtg_time_slot g = sl)) \<and>
     (\<forall>s sl. sl \<in> set (get_or [] (seller_schedule st s)) \<longleftrightarrow>
        (\<exists>g \<in> set (scheduled_meetings st). mtg_seller_id g = s \<and> mtg_time_slot g = sl))"

definition conflict_free :: "meeting list \<Rightarrow> bool" where
  "conflict_free mtgs \<longleftrightarrow>
     distinct (map (\<lambda>g. (mtg_time_slot g, mtg_buyer_id g)) mtgs) \<and>
     distinct (map (\<lambda>g. (mtg_time_slot g, mtg_seller_id g)) mtgs)"

subsection \<open>Concrete inputs\<close>

text \<open>The first buyer and the first seller of \<open>nexo_data.py\<close>.\<close>

definition buyer_001 :: buyer where
  "buyer_001 =
     \<lparr> b_id = ''buyer_001'', b_name = ''Marcos Aguade'', b_company = Some ''Fitness Group'',
       b_investment_amount = Some 140000000, b_locations = Some 1,
       b_facility_type = Some ''Gym Chain'', b_sponsorship_tier = Some ''Platinum'',
       b_interests = Some [''Equipment'', ''Technology'', ''Supplements''],
       b_selected_sellers =
         Some [''seller_001'', ''seller_002'', ''seller_003'', ''seller_004'', ''seller_005''],
       b_region = Some ''Latin America'' \<rparr>"

definition seller_001 :: seller where
  "seller_001 =
     \<lparr> s_id = ''seller_001'', s_name = ''Charly Chagas'', s_company = Some ''Fitness Emporium'',
       s_products = Some [''Equipment'', ''Technology''],
       s_selected_buyers =
         Some [''buyer_001'', ''buyer_003'', ''buyer_004'', ''buyer_006'', ''buyer_008'',
               ''buyer_009'', ''buyer_011'', ''buyer_012''],
       s_region = Some ''Latin America'' \<rparr>"

text \<open>Dictionaries that carry only the mandatory keys and a selection list.\<close>

definition plain_buyer :: "string \<Rightarrow> string list \<Rightarrow> buyer" where
  "plain_buyer i sel =
     \<lparr> b_id = i, b_name = i, b_company = None, b_investment_amount = None,
       b_locations = None, b_facility_type = None, b_sponsorship_tier = None,
       b_interests = None, b_selected_sellers = Some sel, b_region = None \<rparr>"

definition plain_seller :: "string \<Rightarrow> string list \<Rightarrow> seller" where
  "plain_seller i sel =
     \<lparr> s_id = i, s_name = i, s_company = None, s_products = None,
       s_selected_buyers = Some sel, s_region = None \<rparr>"

text \<open>One buyer that selects six sellers, each of which selects the buyer.\<close>

definition six_ids :: "string list" where
  "six_ids = [''s1'', ''s2'', ''s3'', ''s4'', ''s5'', ''s6'']"

definition keen_buyer :: buyer where
  "keen_buyer = plain_buyer ''b1'' six_ids"

definition six_sellers :: "seller list" where
  "six_sellers = map (\<lambda>i. plain_seller i [''b1'']) six_ids"

text \<open>The default weights doubled: a weight dictionary whose values sum to 2.\<close>

definition doubled_weights :: weights where
  "doubled_weights =
     \<lparr> interest_alignment = 80 / 100, investment_factor = 50 / 100,
       company_size = 40 / 100, facility_type = 20 / 100, existing_client = 10 / 100 \<rparr>"

definition slot_001 :: timeslot where
  "slot_001 = \<lparr> slot_id = ''slot_001'', slot_date = ''2023-05-18'', slot_time = ''09:00'',
                 slot_duration = 15 \<rparr>"

definition slot_002 :: timeslot where
  "slot_002 = \<lparr> slot_id = ''slot_002'', slot_date = ''2023-05-18'', slot_time = ''09:15'',
                 slot_duration = 15 \<rparr>"

text \<open>A buyer and a seller that differ from the two above in every field the scorer does not read.\<close>

definition other_buyer :: buyer where
  "other_buyer =
     buyer_001 \<lparr> b_id := ''buyer_999'', b_name := ''Somebody Else'',
                 b_company := Some ''Another Company'', b_sponsorship_tier := None,
                 b_selected_sellers := Some [], b_region := Some ''Europe'' \<rparr>"

definition other_seller :: seller where
  "other_seller =
     seller_001 \<lparr> s_id := ''seller_999'', s_name := ''Nobody'', s_company := None,
                  s_selected_buyers := None, s_region := Some ''Asia'' \<rparr>"

text \<open>
  One buyer and three sellers: a mutual selection, a selection by the seller only, and a
  seller that nobody selected. The generator makes one match of each type.
\<close>

definition lone_buyer :: buyer where
  "lone_buyer = plain_buyer ''b1'' [''s1'']"

definition three_sellers :: "seller list" where
  "three_sellers =
     [plain_seller ''s1'' [''b1''], plain_seller ''s2'' [''b1''], plain_seller ''s3'' []]"

definition three_matches :: "match list" where
  "three_matches =
     [new_match ''b1'' ''s1'' double_match (41 / 2) 1,
      new_match ''b1'' ''s2'' seller_choice (41 / 2) 2,
      new_match ''b1'' ''s3'' ai_suggestion (41 / 2) 3]"

text \<open>The same three matches in another order, as input of the scheduler.\<close>

definition shuffled_matches :: "match list" where
  "shuffled_matches =
     [new_match ''b1'' ''s3'' ai_suggestion (41 / 2) 3,
      new_match ''b1'' ''s1'' double_match (41 / 2) 1,
      new_match ''b1'' ''s2'' seller_choice (41 / 2) 2]"

text \<open>A match list of length 160 and a meeting list of length 23.\<close>

definition many_matches :: "match list" where
  "many_matches = replicate 160 (new_match ''b1'' ''s1'' double_match (41 / 2) 1)"

definition some_meetings :: "meeting list" where
  "some_meetings =
     replicate 23 (new_meeting (new_match ''b1'' ''s1'' double_match (41 / 2) 1) slot_001)"

definition one_meeting :: "meeting list" where
  "one_meeting = [new_meeting (new_match ''b1'' ''s1'' double_match (41 / 2) 1) slot_001]"

section \<open>Properties of the scorer\<close>

lemma interest_score_bounds: "0 \<le> interest_score b s \<and> interest_score b s \<le> 1"
proof -
  let ?A = "set (get_or [] (b_interests b))"
  let ?B = "set (get_or [] (s_products s))"
  have "card (?A \<inter> ?B) \<le> card ?A"
    by (rule card_mono) auto
  then have "card (?A \<inter> ?B) \<le> max (max (card ?A) (card ?B)) 1"
    by simp
  then show ?thesis
    by (simp add: interest_score_def Let_def divide_le_eq_1)
qed

lemma investment_score_bounds: "2 / 10 \<le> investment_score b \<and> investment_score b \<le> 1"
  by (simp add: investment_score_def Let_def)

lemma size_score_bounds: "4 / 10 \<le> size_score b \<and> size_score b \<le> 1"
  by (simp add: size_score_def Let_def)

lemma facility_score_bounds: "5 / 10 \<le> facility_score b s \<and> facility_score b s \<le> 1"
  by (simp add: facility_score_def Let_def)

lemma weighted_sum_nonneg:
  assumes "nonneg_weights w"
  shows "0 \<le> weighted_sum w b s"
proof -
  have "0 \<le> interest_score b s * interest_alignment w"
    using assms interest_score_bounds [of b s] by (simp add: nonneg_weights_def)
  moreover have "0 \<le> investment_score b * investment_factor w"
    using assms investment_score_bounds [of b] by (simp add: nonneg_weights_def)
  moreover have "0 \<le> size_score b * company_size w"
    using assms size_score_bounds [of b] by (simp add: nonneg_weights_def)
  moreover have "0 \<le> facility_score b s * facility_type w"
    using assms facility_score_bounds [of b s] by (simp add: nonneg_weights_def)
  moreover have "0 \<le> (5 / 10) * existing_client w"
    using assms by (simp add: nonneg_weights_def)
  ultimately show ?thesis
    unfolding weighted_sum_def by linarith
qed

lemma weighted_sum_le_total:
  assumes "nonneg_weights w"
  shows "weighted_sum w b s \<le> weights_total w"
proof -
  have "interest_score b s * interest_alignment w \<le> interest_alignment w"
    using assms interest_score_bounds [of b s]
    by (simp add: nonneg_weights_def mult_left_le_one_le)
  moreover have "investment_score b * investment_factor w \<le> investment_factor w"
    using assms investment_score_bounds [of b]
    by (simp add: nonneg_weights_def mult_left_le_one_le)
  moreover have "size_score b * company_size w \<le> company_size w"
    using assms size_score_bounds [of b]
    by (simp add: nonneg_weights_def mult_left_le_one_le)
  moreover have "facility_score b s * facility_type w \<le> facility_type w"
    using assms facility_score_bounds [of b s]
    by (simp add: nonneg_weights_def mult_left_le_one_le)
  moreover have "(5 / 10) * existing_client w \<le> existing_client w"
    using assms by (simp add: nonneg_weights_def)
  ultimately show ?thesis
    unfolding weighted_sum_def weights_total_def by linarith
qed

lemma weighted_sum_default_floor: "205 / 1000 \<le> weighted_sum default_weights b s"
proof -
  have "0 \<le> interest_score b s * (40 / 100)"
    using interest_score_bounds [of b s] by simp
  moreover have "(2 / 10) * (25 / 100) \<le> investment_score b * (25 / 100)"
    using investment_score_bounds [of b] by simp
  moreover have "(4 / 10) * (20 / 100) \<le> size_score b * (20 / 100)"
    using size_score_bounds [of b] by simp
  moreover have "(5 / 10) * (10 / 100) \<le> facility_score b s * (10 / 100)"
    using facility_score_bounds [of b s] by simp
  ultimately show ?thesis
    unfolding weighted_sum_def default_weights_def by simp
qed

lemma weighted_sum_scaled:
  assumes "0 < weights_total w"
  shows "weighted_sum (app_install_weights w) b s = weighted_sum w b s / weights_total w"
  using assms
  by (simp add: app_install_weights_def Let_def weighted_sum_def add_divide_distrib)

lemma interest_score_cong:
  assumes "set (get_or [] (b_interests b')) = set (get_or [] (b_interests b))"
    and "set (get_or [] (s_products s')) = set (get_or [] (s_products s))"
  shows "interest_score b' s' = interest_score b s"
  unfolding interest_score_def Let_def assms ..

lemma facility_score_cong:
  assumes "b_facility_type b' = b_facility_type b"
    and "set (get_or [] (s_products s')) = set (get_or [] (s_products s))"
  shows "facility_score b' s' = facility_score b s"
  unfolding facility_score_def Let_def assms ..

lemma investment_score_cong:
  "b_investment_amount b' = b_investment_amount b \<Longrightarrow> investment_score b' = investment_score b"
  by (simp add: investment_score_def)

lemma size_score_cong:
  "b_locations b' = b_locations b \<Longrightarrow> size_score b' = size_score b"
  by (simp add: size_score_def)

lemma score_cong:
  assumes "set (get_or [] (b_interests b')) = set (get_or [] (b_interests b))"
    and "b_investment_amount b' = b_investment_amount b"
    and "b_locations b' = b_locations b"
    and "b_facility_type b' = b_facility_type b"
    and "set (get_or [] (s_products s')) = set (get_or [] (s_products s))"
  shows "calculate_compatibility_score w b' s' = calculate_compatibility_score w b s"
  unfolding calculate_compatibility_score_def weighted_sum_def
    interest_score_cong [OF assms(1) assms(5)] investment_score_cong [OF assms(2)]
    size_score_cong [OF assms(3)] facility_score_cong [OF assms(4) assms(5)] ..

lemma score_defaults:
  assumes "get_or [] (b_interests b') = get_or [] (b_interests b)"
    and "get_or 0 (b_investment_amount b') = get_or 0 (b_investment_amount b)"
    and "get_or 1 (b_locations b') = get_or 1 (b_locations b)"
    and "b_facility_type b' = b_facility_type b"
    and "get_or [] (s_products s') = get_or [] (s_products s)"
  shows "calculate_compatibility_score w b' s' = calculate_compatibility_score w b s"
  unfolding calculate_compatibility_score_def weighted_sum_def interest_score_def
    investment_score_def size_score_def facility_score_def Let_def assms ..

section \<open>Properties of the scheduler\<close>

lemma sched_inv_buyer:
  "sched_inv st \<Longrightarrow> sl \<in> set (get_or [] (buyer_schedule st b)) \<longleftrightarrow>
     (\<exists>g \<in> set (scheduled_meetings st). mtg_buyer_id g = b \<and> mtg_time_slot g = sl)"
  unfolding sched_inv_def by blast

lemma sched_inv_seller:
  "sched_inv st \<Longrightarrow> sl \<in> set (get_or [] (seller_schedule st s)) \<longleftrightarrow>
     (\<exists>g \<in> set (scheduled_meetings st). mtg_seller_id g = s \<and> mtg_time_slot g = sl)"
  unfolding sched_inv_def by blast

lemma find_cong_pred: "(\<And>x. x \<in> set xs \<Longrightarrow> P x = Q x) \<Longrightarrow> find P xs = find Q xs"
  by (induction xs) auto

lemma find_slot_first_free:
  assumes "sched_inv st"
  shows "find_slot st m ts = first_free_slot (scheduled_meetings st) m ts"
  unfolding find_slot_def first_free_slot_def
proof (rule find_cong_pred)
  fix t :: timeslot
  show "(slot_id t \<notin> set (get_or [] (buyer_schedule st (buyer_id m))) \<and>
         slot_id t \<notin> set (get_or [] (seller_schedule st (seller_id m)))) =
        (\<not> holds_meeting (scheduled_meetings st) m (slot_id t))"
    unfolding sched_inv_buyer [OF assms] sched_inv_seller [OF assms] holds_meeting_def
      list_ex_iff
    by blast
qed

lemma sched_inv_step:
  assumes "sched_inv st"
  shows "sched_inv (schedule_step ts im st)"
proof (cases "find_slot st (snd im) ts")
  case None
  then show ?thesis using assms by (simp add: schedule_step_def Let_def)
next
  case (Some t)
  let ?st = "schedule_step ts im st"
  let ?m = "snd im"
  have mt: "scheduled_meetings ?st = scheduled_meetings st @ [new_meeting ?m t]"
    using Some by (simp add: schedule_step_def Let_def)
  have bs: "buyer_schedule ?st =
      (buyer_schedule st)(buyer_id ?m \<mapsto> get_or [] (buyer_schedule st (buyer_id ?m)) @ [slot_id t])"
    using Some by (simp add: schedule_step_def Let_def)
  have ss: "seller_schedule ?st =
      (seller_schedule st)(seller_id ?m \<mapsto> get_or [] (seller_schedule st (seller_id ?m)) @ [slot_id t])"
    using Some by (simp add: schedule_step_def Let_def)
  have nb: "mtg_buyer_id (new_meeting ?m t) = buyer_id ?m"
    and ns: "mtg_seller_id (new_meeting ?m t) = seller_id ?m"
    and nt: "mtg_time_slot (new_meeting ?m t) = slot_id t"
    by (simp_all add: new_meeting_def)
  have "sl \<in> set (get_or [] (buyer_schedule ?st b)) \<longleftrightarrow>
     (\<exists>g \<in> set (scheduled_meetings ?st). mtg_buyer_id g = b \<and> mtg_time_slot g = sl)" for b sl
  proof (cases "b = buyer_id ?m")
    case True
    have "get_or [] (buyer_schedule ?st b) = get_or [] (buyer_schedule st b) @ [slot_id t]"
      using True by (simp add: bs get_or_def)
    then show ?thesis
      using True sched_inv_buyer [OF assms, of sl b] by (auto simp: mt nb nt)
  next
    case False
    have "get_or [] (buyer_schedule ?st b) = get_or [] (buyer_schedule st b)"
      using False by (simp add: bs)
    then show ?thesis
      using False sched_inv_buyer [OF assms, of sl b] by (auto simp: mt nb nt)
  qed
  moreover have "sl \<in> set (get_or [] (seller_schedule ?st s)) \<longleftrightarrow>
     (\<exists>g \<in> set (scheduled_meetings ?st). mtg_seller_id g = s \<and> mtg_time_slot g = sl)" for s sl
  proof (cases "s = seller_id ?m")
    case True
    have "get_or [] (seller_schedule ?st s) = get_or [] (seller_schedule st s) @ [slot_id t]"
      using True by (simp add: ss get_or_def)
    then show ?thesis
      using True sched_inv_seller [OF assms, of sl s] by (auto simp: mt ns nt)
  next
    case False
    have "get_or [] (seller_schedule ?st s) = get_or [] (seller_schedule st s)"
      using False by (simp add: ss)
    then show ?thesis
      using False sched_inv_seller [OF assms, of sl s] by (auto simp: mt ns nt)
  qed
  ultimately show ?thesis
    unfolding sched_inv_def by blast
qed

lemma schedule_step_greedy:
  assumes "sched_inv st"
  shows "(scheduled_meetings (schedule_loop ts ims st), marked (schedule_loop ts ims st)) =
         greedy_first_fit ts ims (scheduled_meetings st, marked st)"
  using assms
proof (induction ims arbitrary: st)
  case Nil
  then show ?case by simp
next
  case (Cons im ims)
  have inv': "sched_inv (schedule_step ts im st)"
    using Cons.prems by (rule sched_inv_step)
  show ?case
  proof (cases "find_slot st (snd im) ts")
    case None
    then have "schedule_step ts im st = st"
      by (simp add: schedule_step_def Let_def)
    then show ?thesis
      using Cons.IH [OF Cons.prems] None find_slot_first_free [OF Cons.prems, of "snd im" ts]
      by simp
  next
    case (Some t)
    then show ?thesis
      using Cons.IH [OF inv'] find_slot_first_free [OF Cons.prems, of "snd im" ts]
      by (simp add: schedule_step_def Let_def)
  qed
qed

lemma sched_inv_initial:
  "sched_inv \<lparr> scheduled_meetings = [], buyer_schedule = Map.empty,
               seller_schedule = Map.empty, marked = ms \<rparr>"
  by (simp add: sched_inv_def get_or_def)

lemma create_schedule_is_greedy:
  "create_schedule ms ts = greedy_first_fit ts (sorted_matches ms) ([], ms)"
  using schedule_step_greedy [OF sched_inv_initial, of ts "sorted_matches ms" ms]
  by (simp add: create_schedule_def Let_def)

lemma first_free_slot_free:
  assumes "first_free_slot mtgs m ts = Some t"
  shows "\<not> holds_meeting mtgs m (slot_id t)" and "t \<in> set ts"
  using assms unfolding first_free_slot_def by (auto simp: find_Some_iff)

lemma conflict_free_snoc:
  assumes "conflict_free mtgs" and "first_free_slot mtgs m ts = Some t"
  shows "conflict_free (mtgs @ [new_meeting m t])"
  using assms(1) first_free_slot_free(1) [OF assms(2)]
  by (auto simp: conflict_free_def holds_meeting_def list_ex_iff new_meeting_def)

lemma greedy_conflict_free:
  "conflict_free (fst acc) \<Longrightarrow> conflict_free (fst (greedy_first_fit ts ims acc))"
proof (induction ims arbitrary: acc)
  case Nil
  then show ?case by simp
next
  case (Cons im ims)
  show ?case
  proof (cases "first_free_slot (fst acc) (snd im) ts")
    case None
    then show ?thesis using Cons by simp
  next
    case (Some t)
    have "conflict_free (fst acc @ [new_meeting (snd im) t])"
      using Cons.prems Some by (rule conflict_free_snoc)
    then show ?thesis using Cons.IH Some by simp
  qed
qed

lemma sorted_matches_mset: "mset (sorted_matches ms) = mset (zip [0 ..< length ms] ms)"
  by (simp add: sorted_matches_def)

lemma sorted_matches_order: "sorted_wrt (\<lambda>x y. schedule_order (snd x) (snd y)) (sorted_matches ms)"
proof -
  have "sorted (map (\<lambda>x. (priority (snd x), - compatibility_score (snd x))) (sorted_matches ms))"
    unfolding sorted_matches_def by (rule sorted_sort_key)
  then have "sorted_wrt (\<lambda>x y. (priority (snd x), - compatibility_score (snd x)) \<le> (priority (snd y), - compatibility_score (snd y))) (sorted_matches ms)"
    by (simp add: sorted_map)
  then show ?thesis
    by (rule sorted_wrt_mono_rel [rotated]) (auto simp: schedule_order_def)
qed

section \<open>Properties of the generator\<close>

lemma gen_inv_lookup:
  "gen_inv st \<Longrightarrow> buyer_meetings st k = Some ms \<Longrightarrow>
     ms = filter (\<lambda>m. buyer_id m = k) (all_matches st)"
  unfolding gen_inv_def by blast

lemma record_match_all:
  "record_match m st = Inr st' \<Longrightarrow> all_matches st' = all_matches st @ [m]"
  by (auto simp: record_match_def split: option.splits)

lemma record_match_inv:
  assumes "gen_inv st" and "record_match m st = Inr st'"
  shows "gen_inv st'"
proof -
  obtain ms where ms: "buyer_meetings st (buyer_id m) = Some ms"
    and st': "st' = \<lparr> all_matches = all_matches st @ [m],
                buyer_meetings = (buyer_meetings st)(buyer_id m \<mapsto> ms @ [m]) \<rparr>"
    using assms(2) by (auto simp: record_match_def split: option.splits)
  have eq: "ms = filter (\<lambda>x. buyer_id x = buyer_id m) (all_matches st)"
    using gen_inv_lookup [OF assms(1) ms] .
  show ?thesis
    unfolding gen_inv_def
  proof (intro allI impI)
    fix k ms'
    assume h: "buyer_meetings st' k = Some ms'"
    show "ms' = filter (\<lambda>x. buyer_id x = k) (all_matches st')"
    proof (cases "k = buyer_id m")
      case True
      then show ?thesis using h eq by (simp add: st')
    next
      case False
      then have "buyer_meetings st k = Some ms'" using h by (simp add: st')
      then show ?thesis
        using gen_inv_lookup [OF assms(1)] False by (simp add: st')
    qed
  qed
qed

lemma record_match_ok:
  assumes "gen_ok st" and "record_match m st = Inr st'"
    and "pair_of m \<notin> set (map pair_of (all_matches st))"
  shows "gen_ok st'"
  using assms record_match_inv [of st m st'] record_match_all [of m st st']
  by (simp add: gen_ok_def)

lemma for_each_inv:
  assumes "for_each f xs st = Inr st'" and "P st"
    and "\<And>x s s'. x \<in> set xs \<Longrightarrow> P s \<Longrightarrow> f x s = Inr s' \<Longrightarrow> P s'"
  shows "P st'"
  using assms
proof (induction xs arbitrary: st)
  case Nil
  then show ?case by simp
next
  case (Cons x xs)
  from Cons.prems(1) obtain s1 where s1: "f x st = Inr s1" and rest: "for_each f xs s1 = Inr st'"
    by (auto split: sum.splits)
  have p1: "P s1" using Cons.prems(3) [of x st s1] Cons.prems(2) s1 by simp
  have step: "P s'" if "y \<in> set xs" and "P s" and "f y s = Inr s'" for y s s' 
    using Cons.prems(3) [of y] that by simp
  show ?case
    using Cons.IH [OF rest p1 step] .
qed

lemma double_match_step_cases:
  assumes "double_match_step w b s st = Inr st'"
  shows "st' = st \<or>
     record_match (new_match (b_id b) (s_id s) double_match
        (calculate_compatibility_score w b s) 1) st = Inr st'"
  using assms by (auto simp: double_match_step_def Let_def split: if_splits)

lemma pair_of_new_match [simp]: "pair_of (new_match bid sid ty c p) = (bid, sid)"
  by (simp add: pair_of_def new_match_def)

lemma buyer_id_new_match [simp]: "buyer_id (new_match bid sid ty c p) = bid"
  by (simp add: new_match_def)

lemma seller_id_new_match [simp]: "seller_id (new_match bid sid ty c p) = sid"
  by (simp add: new_match_def)

lemma step1_inner:
  assumes "for_each (double_match_step w b) sellers st = Inr st'"
    and "distinct (map s_id sellers)"
    and "gen_ok st"
    and "\<forall>m \<in> set (all_matches st). buyer_id m = b_id b \<longrightarrow> seller_id m \<notin> s_id ` set sellers"
  shows "gen_ok st' \<and>
         (\<forall>m \<in> set (all_matches st'). m \<in> set (all_matches st) \<or> buyer_id m = b_id b)"
  using assms
proof (induction sellers arbitrary: st)
  case Nil
  then show ?case by simp
next
  case (Cons s sellers)
  from Cons.prems(1) obtain s1 where s1: "double_match_step w b s st = Inr s1"
    and rest: "for_each (double_match_step w b) sellers s1 = Inr st'"
    by (auto split: sum.splits)
  let ?m = "new_match (b_id b) (s_id s) double_match (calculate_compatibility_score w b s) 1"
  have d: "distinct (map s_id sellers)" and notin: "s_id s \<notin> s_id ` set sellers"
    using Cons.prems(2) by auto
  have fresh: "pair_of ?m \<notin> set (map pair_of (all_matches st))"
    using Cons.prems(4) by (auto simp: pair_of_def)
  from double_match_step_cases [OF s1]
  have ok1: "gen_ok s1"
    and all1: "all_matches s1 = all_matches st \<or> all_matches s1 = all_matches st @ [?m]"
    using Cons.prems(3) record_match_ok [OF Cons.prems(3) _ fresh, of s1]
      record_match_all [of ?m st s1]
    by auto
  have pre: "\<forall>m \<in> set (all_matches s1). buyer_id m = b_id b \<longrightarrow> seller_id m \<notin> s_id ` set sellers"
    using all1 Cons.prems(4) notin by auto
  have ih: "gen_ok st' \<and>
         (\<forall>m \<in> set (all_matches st'). m \<in> set (all_matches s1) \<or> buyer_id m = b_id b)"
    using Cons.IH [OF rest d ok1 pre] .
  have "m \<in> set (all_matches st) \<or> buyer_id m = b_id b" if "m \<in> set (all_matches st')" for m
  proof -
    from ih that have "m \<in> set (all_matches s1) \<or> buyer_id m = b_id b" by blast
    then show ?thesis using all1 by auto
  qed
  then show ?case using ih by blast
qed

lemma step1_outer:
  assumes "for_each (\<lambda>b. for_each (double_match_step w b) sellers) buyers st = Inr st'"
    and "distinct (map b_id buyers)" and "distinct (map s_id sellers)"
    and "gen_ok st"
    and "\<forall>m \<in> set (all_matches st). buyer_id m \<notin> b_id ` set buyers"
  shows "gen_ok st'"
  using assms
proof (induction buyers arbitrary: st)
  case Nil
  then show ?case by simp
next
  case (Cons b buyers)
  from Cons.prems(1) obtain s1 where s1: "for_each (double_match_step w b) sellers st = Inr s1"
    and rest: "for_each (\<lambda>b. for_each (double_match_step w b) sellers) buyers s1 = Inr st'"
    by (auto split: sum.splits)
  have d: "distinct (map b_id buyers)" and notin: "b_id b \<notin> b_id ` set buyers"
    using Cons.prems(2) by auto
  have vac: "\<forall>m \<in> set (all_matches st). buyer_id m = b_id b \<longrightarrow> seller_id m \<notin> s_id ` set sellers"
    using Cons.prems(5) by auto
  have inner: "gen_ok s1 \<and>
         (\<forall>m \<in> set (all_matches s1). m \<in> set (all_matches st) \<or> buyer_id m = b_id b)"
    using step1_inner [OF s1 Cons.prems(3) Cons.prems(4) vac] .
  have pre: "\<forall>m \<in> set (all_matches s1). buyer_id m \<notin> b_id ` set buyers"
  proof
    fix m assume "m \<in> set (all_matches s1)"
    with inner have "m \<in> set (all_matches st) \<or> buyer_id m = b_id b" by blast
    then show "buyer_id m \<notin> b_id ` set buyers"
      using Cons.prems(5) notin by auto
  qed
  have ok1: "gen_ok s1" using inner by simp
  show ?case
    using Cons.IH [OF rest d Cons.prems(3) ok1 pre] .
qed

lemma seller_choice_step_ok:
  assumes "gen_ok st" and "seller_choice_step w buyers s bid st = Inr st'"
  shows "gen_ok st'"
proof (cases "find (\<lambda>b. b_id b = bid) buyers")
  case None
  then show ?thesis using assms by (simp add: seller_choice_step_def)
next
  case (Some b)
  then obtain ms where ms: "buyer_meetings st bid = Some ms"
    using assms(2) by (auto simp: seller_choice_step_def split: option.splits)
  have eq: "ms = filter (\<lambda>m. buyer_id m = bid) (all_matches st)"
    using gen_inv_lookup [OF _ ms] assms(1) by (simp add: gen_ok_def)
  show ?thesis
  proof (cases "list_ex (\<lambda>m. buyer_id m = bid \<and> seller_id m = s_id s) ms")
    case True
    then show ?thesis using assms Some ms by (simp add: seller_choice_step_def)
  next
    case False
    let ?m = "new_match bid (s_id s) seller_choice (calculate_compatibility_score w b s) 2"
    have fresh: "pair_of ?m \<notin> set (map pair_of (all_matches st))"
      using False unfolding eq by (auto simp: list_ex_iff pair_of_def)
    have "st' = st \<or> record_match ?m st = Inr st'"
      using assms(2) Some ms False by (auto simp: seller_choice_step_def split: if_splits)
    then show ?thesis
      using assms(1) record_match_ok [OF assms(1) _ fresh] by auto
  qed
qed

lemma step2_ok:
  assumes "process_seller_choices iter w buyers sellers st = Inr st'" and "gen_ok st"
  shows "gen_ok st'"
proof -
  have inner: "gen_ok s2"
    if "gen_ok s1"
      and "for_each (seller_choice_step w buyers s) (iter (get_or [] (s_selected_buyers s))) s1
             = Inr s2"
    for s :: seller and s1 s2
    using for_each_inv [where P = gen_ok, OF that(2) that(1)] seller_choice_step_ok
    by blast
  show ?thesis
    using for_each_inv [where P = gen_ok, OF assms(1) [unfolded process_seller_choices_def] assms(2)]
      inner
    by blast
qed

lemma for_each_record:
  assumes "for_each (\<lambda>x. record_match (g x)) xs st = Inr st'" and "gen_inv st"
  shows "gen_inv st' \<and> all_matches st' = all_matches st @ map g xs"
  using assms
proof (induction xs arbitrary: st)
  case Nil
  then show ?case by simp
next
  case (Cons x xs)
  from Cons.prems(1) obtain s1 where s1: "record_match (g x) st = Inr s1"
    and rest: "for_each (\<lambda>x. record_match (g x)) xs s1 = Inr st'"
    by (auto split: sum.splits)
  have "gen_inv s1" using record_match_inv [OF Cons.prems(2) s1] .
  from Cons.IH [OF rest this] show ?case
    using record_match_all [OF s1] by simp
qed

lemma distinct_map_sort_key:
  "distinct (map f (sort_key k xs)) = distinct (map f xs)"
proof -
  have "mset (map f (sort_key k xs)) = mset (map f xs)" by simp
  then show ?thesis by (rule mset_eq_imp_distinct_iff)
qed

lemma ai_candidates_props:
  assumes "distinct (map s_id sellers)"
  shows "distinct (map (\<lambda>x. s_id (fst x)) (ai_candidates w b sellers ms))"
    and "\<And>x. x \<in> set (ai_candidates w b sellers ms) \<Longrightarrow> s_id (fst x) \<notin> seller_id ` set ms"
    and "length (ai_candidates w b sellers ms) =
           length (filter (\<lambda>s. s_id s \<notin> seller_id ` set ms) sellers)"
proof -
  show "distinct (map (\<lambda>x. s_id (fst x)) (ai_candidates w b sellers ms))"
    using assms
    by (simp add: ai_candidates_def Let_def distinct_map_sort_key comp_def distinct_map_filter)
  show "\<And>x. x \<in> set (ai_candidates w b sellers ms) \<Longrightarrow> s_id (fst x) \<notin> seller_id ` set ms"
    by (auto simp: ai_candidates_def Let_def)
  show "length (ai_candidates w b sellers ms) =
           length (filter (\<lambda>s. s_id s \<notin> seller_id ` set ms) sellers)"
    by (simp add: ai_candidates_def Let_def)
qed

lemma ai_step_ok:
  assumes "gen_ok st" and "ai_step w sellers b st = Inr st'" and "distinct (map s_id sellers)"
  shows "gen_ok st'"
proof -
  obtain ms where ms: "buyer_meetings st (b_id b) = Some ms"
    using assms(2) by (auto simp: ai_step_def split: option.splits)
  have eq: "ms = filter (\<lambda>m. buyer_id m = b_id b) (all_matches st)"
    using gen_inv_lookup [OF _ ms] assms(1) by (simp add: gen_ok_def)
  show ?thesis
  proof (cases "length ms < 5")
    case False
    then show ?thesis using assms ms by (simp add: ai_step_def Let_def)
  next
    case True
    let ?xs = "take (5 - length ms) (ai_candidates w b sellers ms)"
    let ?g = "\<lambda>x. new_match (b_id b) (s_id (fst x)) ai_suggestion (snd x) 3"
    have run: "for_each (\<lambda>x. record_match (?g x)) ?xs st = Inr st'"
      using assms(2) ms True by (simp add: ai_step_def Let_def)
    have inv: "gen_inv st" using assms(1) by (simp add: gen_ok_def)
    from for_each_record [OF run inv]
    have inv': "gen_inv st'" and all': "all_matches st' = all_matches st @ map ?g ?xs"
      by auto
    have d1: "distinct (map (\<lambda>x. s_id (fst x)) ?xs)"
      using ai_candidates_props(1) [OF assms(3), of w b ms]
      by (simp add: take_map [symmetric])
    have "inj_on (\<lambda>sid. (b_id b, sid)) (set (map (\<lambda>x. s_id (fst x)) ?xs))"
      by (rule inj_onI) simp
    then have "distinct (map (\<lambda>sid. (b_id b, sid)) (map (\<lambda>x. s_id (fst x)) ?xs))"
      using d1 by (simp only: distinct_map)
    then have d2: "distinct (map pair_of (map ?g ?xs))"
      by (simp add: comp_def)
    have ne: "pair_of m \<noteq> pair_of (?g x)"
      if m: "m \<in> set (all_matches st)" and x: "x \<in> set ?xs" for m x
    proof
      assume pe: "pair_of m = pair_of (?g x)"
      have "x \<in> set (ai_candidates w b sellers ms)" using x by (rule in_set_takeD)
      then have "s_id (fst x) \<notin> seller_id ` set ms"
        by (rule ai_candidates_props(2) [OF assms(3)])
      moreover have "m \<in> set ms" using m pe unfolding eq by (simp add: pair_of_def)
      moreover have "seller_id m = s_id (fst x)" using pe by (simp add: pair_of_def)
      ultimately show False by force
    qed
    have d3: "set (map pair_of (all_matches st)) \<inter> set (map pair_of (map ?g ?xs)) = {}"
    proof (rule ccontr)
      assume "\<not> ?thesis"
      then obtain p where "p \<in> set (map pair_of (all_matches st))"
        and "p \<in> set (map pair_of (map ?g ?xs))"
        by blast
      then obtain m x where "m \<in> set (all_matches st)" and "x \<in> set ?xs"
        and "pair_of m = p" and "p = pair_of (?g x)"
        by (auto simp del: pair_of_new_match)
      then show False using ne [of m x] by simp
    qed
    have "distinct (map pair_of (all_matches st'))"
      unfolding all' using assms(1) d2 d3 by (simp add: gen_ok_def)
    then show ?thesis using inv' by (simp add: gen_ok_def)
  qed
qed

lemma step3_ok:
  assumes "process_ai_suggestions w buyers sellers st = Inr st'" and "gen_ok st"
    and "distinct (map s_id sellers)"
  shows "gen_ok st'"
  using for_each_inv [where P = gen_ok, OF assms(1) [unfolded process_ai_suggestions_def] assms(2)]
    ai_step_ok [OF _ _ assms(3)]
  by blast

lemma gen_ok_initial: "gen_ok (initial_state buyers)"
  by (auto simp: gen_ok_def gen_inv_def initial_state_def dest!: map_of_SomeD)

lemma find_matches_pairs_distinct:
  assumes "distinct (map b_id buyers)" and "distinct (map s_id sellers)"
    and "find_matches iter w buyers sellers = Inr ms"
  shows "distinct (map pair_of ms)"
proof -
  from assms(3) obtain st1 st2 st3 where
    s1: "process_double_matches w buyers sellers (initial_state buyers) = Inr st1"
    and s2: "process_seller_choices iter w buyers sellers st1 = Inr st2"
    and s3: "process_ai_suggestions w buyers sellers st2 = Inr st3"
    and ps: "print_summary st3 = Inr ms"
    by (auto simp: find_matches_def split: sum.splits)
  have "gen_ok st1"
    using s1 unfolding process_double_matches_def
    by (rule step1_outer [OF _ assms(1) assms(2) gen_ok_initial])
       (simp add: initial_state_def)
  then have "gen_ok st2" using step2_ok [OF s2] by simp
  then have "gen_ok st3" using step3_ok [OF s3 _ assms(2)] by simp
  moreover have "ms = all_matches st3"
    using ps by (auto simp: print_summary_def Let_def split: if_splits)
  ultimately show ?thesis by (simp add: gen_ok_def)
qed

text \<open>
  The generator never raises KeyError: it returns a non-empty match list when there is at
  least one buyer and one seller, and raises ZeroDivisionError otherwise.
\<close>

lemma for_each_total:
  assumes "Q st"
    and "\<And>x s. x \<in> set xs \<Longrightarrow> Q s \<Longrightarrow> \<exists>s'. f x s = Inr s' \<and> Q s'"
  shows "\<exists>st'. for_each f xs st = Inr st' \<and> Q st'"
  using assms
proof (induction xs arbitrary: st)
  case Nil
  then show ?case by simp
next
  case (Cons x xs)
  from Cons.prems(2) [of x st] Cons.prems(1)
  obtain s1 where s1: "f x st = Inr s1" and q1: "Q s1" by auto
  have step: "\<exists>s'. f y s = Inr s' \<and> Q s'" if "y \<in> set xs" and "Q s" for y s
    using Cons.prems(2) [of y s] that by simp
  from Cons.IH [OF q1 step] show ?case using s1 by simp
qed

lemma record_match_total:
  assumes "gen_dom D st" and "buyer_id m \<in> D"
  shows "\<exists>st'. record_match m st = Inr st' \<and> gen_dom D st'"
proof -
  from assms obtain ms where ms: "buyer_meetings st (buyer_id m) = Some ms"
    by (auto simp: gen_dom_def)
  let ?st = "\<lparr> all_matches = all_matches st @ [m],
                buyer_meetings = (buyer_meetings st)(buyer_id m \<mapsto> ms @ [m]) \<rparr>"
  have r: "record_match m st = Inr ?st"
    using ms by (simp add: record_match_def)
  have "gen_inv ?st"
    using record_match_inv [OF _ r] assms(1) by (simp add: gen_dom_def)
  moreover have "dom (buyer_meetings ?st) = D"
    using assms ms by (auto simp: gen_dom_def)
  ultimately show ?thesis using r by (simp add: gen_dom_def)
qed

lemma double_match_step_total:
  assumes "gen_dom D st" and "b_id b \<in> D"
  shows "\<exists>st'. double_match_step w b s st = Inr st' \<and> gen_dom D st'"
proof (cases "b_id b \<in> set (get_or [] (s_selected_buyers s)) \<and>
              s_id s \<in> set (get_or [] (b_selected_sellers b))")
  case True
  then show ?thesis
    using record_match_total [OF assms(1), of
        "new_match (b_id b) (s_id s) double_match (calculate_compatibility_score w b s) 1"]
      assms(2)
    by (simp add: double_match_step_def Let_def)
next
  case False
  then show ?thesis using assms(1) by (auto simp: double_match_step_def Let_def)
qed

lemma seller_choice_step_total:
  assumes "gen_dom (b_id ` set buyers) st"
  shows "\<exists>st'. seller_choice_step w buyers s bid st = Inr st' \<and> gen_dom (b_id ` set buyers) st'"
proof (cases "find (\<lambda>b. b_id b = bid) buyers")
  case None
  then show ?thesis using assms by (simp add: seller_choice_step_def)
next
  case (Some b)
  then have "b \<in> set buyers" and "b_id b = bid"
    by (auto simp: find_Some_iff)
  then have in_dom: "bid \<in> b_id ` set buyers" by auto
  then obtain ms where ms: "buyer_meetings st bid = Some ms"
    using assms by (auto simp: gen_dom_def)
  show ?thesis
    using Some ms assms
      record_match_total [OF assms, of
        "new_match bid (s_id s) seller_choice (calculate_compatibility_score w b s) 2"]
      in_dom
    by (simp add: seller_choice_step_def)
qed

lemma ai_step_total:
  assumes "gen_dom D st" and "b_id b \<in> D"
  shows "\<exists>st'. ai_step w sellers b st = Inr st' \<and> gen_dom D st'"
proof -
  from assms obtain ms where ms: "buyer_meetings st (b_id b) = Some ms"
    by (auto simp: gen_dom_def)
  show ?thesis
  proof (cases "length ms < 5")
    case False
    then show ?thesis using ms assms(1) by (simp add: ai_step_def Let_def)
  next
    case True
    have "\<exists>st'. for_each
             (\<lambda>x. record_match (new_match (b_id b) (s_id (fst x)) ai_suggestion (snd x) 3))
             (take (5 - length ms) (ai_candidates w b sellers ms)) st = Inr st' \<and>
           gen_dom D st'"
      by (rule for_each_total [where Q = "gen_dom D", OF assms(1)])
         (simp add: record_match_total assms(2))
    then show ?thesis using ms True by (simp add: ai_step_def Let_def)
  qed
qed

lemma gen_dom_initial: "gen_dom (b_id ` set buyers) (initial_state buyers)"
proof -
  have "dom (map_of (map (\<lambda>b. (b_id b, [])) buyers)) = b_id ` set buyers"
    by (simp add: dom_map_of_conv_image_fst image_image)
  moreover have "gen_inv (initial_state buyers)"
    using gen_ok_initial [of buyers] by (simp add: gen_ok_def)
  ultimately show ?thesis by (simp add: gen_dom_def initial_state_def)
qed

lemma passes_total:
  "\<exists>st1 st2 st3.
     process_double_matches w buyers sellers (initial_state buyers) = Inr st1 \<and>
     process_seller_choices iter w buyers sellers st1 = Inr st2 \<and>
     process_ai_suggestions w buyers sellers st2 = Inr st3 \<and>
     gen_dom (b_id ` set buyers) st2"
proof -
  let ?D = "b_id ` set buyers"
  have "\<exists>st1. process_double_matches w buyers sellers (initial_state buyers) = Inr st1 \<and>
          gen_dom ?D st1"
    unfolding process_double_matches_def
  proof (rule for_each_total [where Q = "gen_dom ?D", OF gen_dom_initial])
    fix b s
    assume "b \<in> set buyers" and "gen_dom ?D s"
    then show "\<exists>s'. for_each (double_match_step w b) sellers s = Inr s' \<and> gen_dom ?D s'"
      by (intro for_each_total [where Q = "gen_dom ?D"]) (auto intro: double_match_step_total)
  qed
  then obtain st1 where s1: "process_double_matches w buyers sellers (initial_state buyers) = Inr st1"
    and d1: "gen_dom ?D st1" by blast
  have "\<exists>st2. process_seller_choices iter w buyers sellers st1 = Inr st2 \<and> gen_dom ?D st2"
    unfolding process_seller_choices_def
  proof (rule for_each_total [where Q = "gen_dom ?D", OF d1])
    fix s :: seller and st
    assume "gen_dom ?D st"
    then show "\<exists>s'. for_each (seller_choice_step w buyers s)
                  (iter (get_or [] (s_selected_buyers s))) st = Inr s' \<and> gen_dom ?D s'"
      by (intro for_each_total [where Q = "gen_dom ?D"]) (auto intro: seller_choice_step_total)
  qed
  then obtain st2 where s2: "process_seller_choices iter w buyers sellers st1 = Inr st2"
    and d2: "gen_dom ?D st2" by blast
  have "\<exists>st3. process_ai_suggestions w buyers sellers st2 = Inr st3 \<and> gen_dom ?D st3"
    unfolding process_ai_suggestions_def
    by (rule for_each_total [where Q = "gen_dom ?D", OF d2]) (auto intro: ai_step_total)
  then show ?thesis using s1 s2 d2 by blast
qed

lemma for_each_skip:
  assumes "\<And>x. x \<in> set xs \<Longrightarrow> f x st = Inr st"
  shows "for_each f xs st = Inr st"
  using assms by (induction xs) simp_all

lemma record_match_nonempty:
  "record_match m st = Inr st' \<Longrightarrow> all_matches st' \<noteq> []"
  using record_match_all [of m st st'] by simp

lemma double_match_step_keeps:
  "double_match_step w b s st = Inr st' \<Longrightarrow> all_matches st \<noteq> [] \<Longrightarrow> all_matches st' \<noteq> []"
  using double_match_step_cases [of w b s st st'] record_match_nonempty by blast

lemma seller_choice_step_keeps:
  assumes "seller_choice_step w buyers s bid st = Inr st'" and "all_matches st \<noteq> []"
  shows "all_matches st' \<noteq> []"
  using assms record_match_nonempty
  by (auto simp: seller_choice_step_def split: option.splits if_splits)

lemma ai_step_keeps:
  assumes "ai_step w sellers b st = Inr st'" and "all_matches st \<noteq> []"
  shows "all_matches st' \<noteq> []"
proof -
  obtain ms where ms: "buyer_meetings st (b_id b) = Some ms"
    using assms(1) by (auto simp: ai_step_def split: option.splits)
  show ?thesis
  proof (cases "length ms < 5")
    case False
    then show ?thesis using assms ms by (simp add: ai_step_def Let_def)
  next
    case True
    then have run: "for_each
        (\<lambda>x. record_match (new_match (b_id b) (s_id (fst x)) ai_suggestion (snd x) 3))
        (take (5 - length ms) (ai_candidates w b sellers ms)) st = Inr st'"
      using assms(1) ms by (simp add: ai_step_def Let_def)
    show ?thesis
      by (rule for_each_inv [where P = "\<lambda>s. all_matches s \<noteq> []", OF run assms(2)])
         (rule record_match_nonempty)
  qed
qed

lemma ai_step_fills:
  assumes "ai_step w sellers b st = Inr st'" and "gen_inv st" and "sellers \<noteq> []"
  shows "all_matches st' \<noteq> []"
proof (cases "all_matches st = []")
  case False
  then show ?thesis using ai_step_keeps [OF assms(1)] by simp
next
  case True
  obtain ms where ms: "buyer_meetings st (b_id b) = Some ms"
    using assms(1) by (auto simp: ai_step_def split: option.splits)
  have empty: "ms = []"
    using gen_inv_lookup [OF assms(2) ms] True by simp
  let ?g = "\<lambda>x. new_match (b_id b) (s_id (fst x)) ai_suggestion (snd x) 3"
  let ?xs = "take 5 (ai_candidates w b sellers [])"
  have run: "for_each (\<lambda>x. record_match (?g x)) ?xs st = Inr st'"
    using assms(1) ms empty by (simp add: ai_step_def Let_def)
  have "length (ai_candidates w b sellers []) = length sellers"
    by (simp add: ai_candidates_def Let_def)
  then have "?xs \<noteq> []" using assms(3) by auto
  moreover have "all_matches st' = all_matches st @ map ?g ?xs"
    using for_each_record [OF run assms(2)] by simp
  ultimately show ?thesis by simp
qed

lemma process_ai_fills:
  assumes "process_ai_suggestions w buyers sellers st = Inr st'" and "gen_dom D st"
    and "buyers \<noteq> []" and "sellers \<noteq> []"
  shows "all_matches st' \<noteq> []"
proof -
  obtain b bs where bs: "buyers = b # bs" using assms(3) by (cases buyers) auto
  from assms(1) obtain s1 where s1: "ai_step w sellers b st = Inr s1"
    and rest: "for_each (ai_step w sellers) bs s1 = Inr st'"
    by (auto simp: process_ai_suggestions_def bs split: sum.splits)
  have "gen_inv st" using assms(2) by (simp add: gen_dom_def)
  then have ne: "all_matches s1 \<noteq> []" using ai_step_fills [OF s1 _ assms(4)] by simp
  show ?thesis
    by (rule for_each_inv [where P = "\<lambda>s. all_matches s \<noteq> []", OF rest ne])
       (rule ai_step_keeps)
qed

lemma find_matches_returns:
  assumes "buyers \<noteq> []" and "sellers \<noteq> []"
  shows "\<exists>ms. find_matches iter w buyers sellers = Inr ms \<and> ms \<noteq> []"
proof -
  from passes_total [of w buyers sellers iter] obtain st1 st2 st3 where
    s1: "process_double_matches w buyers sellers (initial_state buyers) = Inr st1"
    and s2: "process_seller_choices iter w buyers sellers st1 = Inr st2"
    and s3: "process_ai_suggestions w buyers sellers st2 = Inr st3"
    and d2: "gen_dom (b_id ` set buyers) st2"
    by blast
  have "all_matches st3 \<noteq> []"
    using process_ai_fills [OF s3 d2 assms] .
  then show ?thesis
    using s1 s2 s3 by (simp add: find_matches_def print_summary_def Let_def)
qed

lemma find_matches_no_buyers:
  "find_matches iter w [] sellers = Inl ZeroDivisionError"
proof -
  have "for_each (\<lambda>s. for_each (seller_choice_step w [] s) (iter (get_or [] (s_selected_buyers s))))
          sellers (initial_state []) = Inr (initial_state [])"
    by (intro for_each_skip) (simp add: seller_choice_step_def)
  then show ?thesis
    by (simp add: find_matches_def process_double_matches_def process_seller_choices_def
        process_ai_suggestions_def print_summary_def initial_state_def)
qed

lemma find_matches_no_sellers:
  "find_matches iter w buyers [] = Inl ZeroDivisionError"
proof -
  let ?st = "initial_state buyers"
  have p1: "process_double_matches w buyers [] ?st = Inr ?st"
    unfolding process_double_matches_def by (intro for_each_skip) simp
  have p2: "process_seller_choices iter w buyers [] ?st = Inr ?st"
    by (simp add: process_seller_choices_def)
  have look: "buyer_meetings ?st (b_id b) = Some []" if "b \<in> set buyers" for b
  proof -
    from gen_dom_initial [of buyers] that
    obtain ms where ms: "buyer_meetings ?st (b_id b) = Some ms"
      by (auto simp: gen_dom_def)
    then have "ms = filter (\<lambda>m. buyer_id m = b_id b) (all_matches ?st)"
      using gen_dom_initial [of buyers] gen_inv_lookup by (simp add: gen_dom_def)
    then show ?thesis using ms by (simp add: initial_state_def)
  qed
  have p3: "process_ai_suggestions w buyers [] ?st = Inr ?st"
    unfolding process_ai_suggestions_def
    by (intro for_each_skip) (simp add: ai_step_def look ai_candidates_def Let_def)
  have "print_summary ?st = Inl ZeroDivisionError"
    by (simp add: print_summary_def initial_state_def)
  then show ?thesis
    by (simp add: find_matches_def p1 p2 p3)
qed

section \<open>Properties of the aggregator\<close>

lemma pow2_powr: "pow2 k = (2::real) powr (of_int k)"
proof (cases "0 \<le> k")
  case True
  then have "(2::real) powr (of_int k) = 2 ^ nat k"
    using powr_realpow [of "2::real" "nat k"] by simp
  then show ?thesis using True by (simp add: pow2_def)
next
  case False
  then have "(2::real) powr (of_int (- k)) = 2 ^ nat (- k)"
    using powr_realpow [of "2::real" "nat (- k)"] by simp
  moreover have "(2::real) powr (of_int k) = 1 / 2 powr (of_int (- k))"
    by (simp add: powr_minus_divide)
  ultimately show ?thesis using False by (simp add: pow2_def)
qed

lemma pow2_pos: "0 < pow2 k"
  by (simp add: pow2_powr)

lemma pow2_add: "pow2 (a + b) = pow2 a * pow2 b"
  by (simp add: pow2_powr powr_add)

lemma pow2_mono: "a \<le> b \<Longrightarrow> pow2 a \<le> pow2 b"
  by (simp add: pow2_powr)

lemma pow2_0 [simp]: "pow2 0 = 1"
  by (simp add: pow2_def)

lemma pow2_1 [simp]: "pow2 1 = 2"
  by (simp add: pow2_def)

lemma pow2_Suc: "pow2 (k + 1) = 2 * pow2 k"
  by (simp add: pow2_add)

lemma pow2_pred: "pow2 (k - 1) = pow2 k / 2"
  using pow2_add [of "k - 1" 1] by simp

lemma ilog2_fuel_bounds:
  assumes "pow2 (- int n) \<le> x" and "x < pow2 (int n + 1)"
  shows "pow2 (ilog2_fuel n x) \<le> x \<and> x < pow2 (ilog2_fuel n x + 1)"
  using assms
proof (induction n arbitrary: x)
  case 0
  then show ?case by simp
next
  case (Suc n)
  consider "2 \<le> x" | "x < 1" | "1 \<le> x" "x < 2" by linarith
  then show ?case
  proof cases
    case 1
    have lo: "pow2 (- int n) \<le> x / 2"
    proof -
      have "pow2 (- int n) \<le> pow2 0" by (rule pow2_mono) simp
      then show ?thesis using 1 by simp
    qed
    have "x < 2 * pow2 (int n + 1)"
      using Suc.prems(2) pow2_Suc [of "int n + 1"] by (simp add: add.commute)
    then have hi: "x / 2 < pow2 (int n + 1)" by simp
    let ?e = "ilog2_fuel n (x / 2)"
    from Suc.IH [OF lo hi] have a: "pow2 ?e \<le> x / 2" and b: "x / 2 < pow2 (?e + 1)"
      by simp_all
    have r: "ilog2_fuel (Suc n) x = ?e + 1" using 1 by simp
    have "pow2 (?e + 1) \<le> x" using a pow2_Suc [of ?e] by simp
    moreover have "x < pow2 (?e + 1 + 1)" using b pow2_Suc [of "?e + 1"] by simp
    ultimately show ?thesis unfolding r by blast
  next
    case 2
    have "- int (Suc n) = - int n - 1" by simp
    then have "pow2 (- int n - 1) \<le> x"
      using Suc.prems(1) by (simp only:)
    then have lo: "pow2 (- int n) \<le> 2 * x"
      using pow2_pred [of "- int n"] by simp
    have "pow2 1 \<le> pow2 (int n + 1)" by (rule pow2_mono) simp
    then have hi: "2 * x < pow2 (int n + 1)" using 2 by simp
    let ?e = "ilog2_fuel n (2 * x)"
    from Suc.IH [OF lo hi] have a: "pow2 ?e \<le> 2 * x" and b: "2 * x < pow2 (?e + 1)"
      by simp_all
    have r: "ilog2_fuel (Suc n) x = ?e - 1" using 2 by simp
    have "pow2 (?e - 1) \<le> x" using a pow2_pred [of ?e] by simp
    moreover have "x < pow2 (?e - 1 + 1)" using b pow2_Suc [of ?e] by simp
    ultimately show ?thesis unfolding r by blast
  next
    case 3
    then show ?thesis by simp
  qed
qed

lemma round_half_even_near: "\<bar>of_int (round_half_even x) - x\<bar> \<le> 1 / 2"
proof -
  have "of_int \<lfloor>x\<rfloor> \<le> x" and "x < of_int \<lfloor>x\<rfloor> + 1"
    by linarith+
  then show ?thesis
    unfolding round_half_even_def Let_def by (auto simp: abs_le_iff)
qed

lemma round2_near: "\<bar>round2 x - x\<bar> \<le> 1 / 200"
proof -
  have "\<bar>of_int (round_half_even (x * 100)) - x * 100\<bar> \<le> 1 / 2"
    by (rule round_half_even_near)
  then show ?thesis
    unfolding round2_def by (simp add: abs_le_iff field_simps)
qed

lemma exponent_bounds:
  assumes "pow2 (- 1100) \<le> \<bar>x\<bar>" and "\<bar>x\<bar> < pow2 1101"
  shows "pow2 (exponent x) \<le> \<bar>x\<bar> \<and> \<bar>x\<bar> < pow2 (exponent x + 1)"
  using ilog2_fuel_bounds [of 1100 "\<bar>x\<bar>"] assms by (simp add: exponent_def)

lemma binary64_error:
  assumes "x = 0 \<or> (pow2 (- 1100) \<le> \<bar>x\<bar> \<and> \<bar>x\<bar> < pow2 1101)"
  shows "\<bar>binary64 x - x\<bar> \<le> \<bar>x\<bar> / 2 ^ 53"
proof (cases "x = 0")
  case True
  then show ?thesis by (simp add: binary64_def)
next
  case False
  let ?e = "exponent x"
  let ?y = "x * pow2 (52 - ?e)"
  have lo: "pow2 ?e \<le> \<bar>x\<bar>"
    using exponent_bounds [of x] assms False by simp
  have inv: "pow2 (52 - ?e) * pow2 (?e - 52) = 1"
    using pow2_add [of "52 - ?e" "?e - 52"] by simp
  have "binary64 x - x = (of_int (round_half_even ?y) - ?y) * pow2 (?e - 52)"
    using False inv by (simp add: binary64_def Let_def algebra_simps)
  then have "\<bar>binary64 x - x\<bar> = \<bar>of_int (round_half_even ?y) - ?y\<bar> * pow2 (?e - 52)"
    using pow2_pos [of "?e - 52"] by (simp add: abs_mult)
  also have "\<dots> \<le> (1 / 2) * pow2 (?e - 52)"
    using round_half_even_near [of ?y] pow2_pos [of "?e - 52"]
    by (intro mult_right_mono) simp_all
  also have "\<dots> = pow2 ?e / 2 ^ 53"
  proof -
    have "pow2 (?e - 52) = pow2 ?e * pow2 (- 52)"
      using pow2_add [of ?e "- 52"] by simp
    then show ?thesis by (simp add: pow2_def)
  qed
  also have "\<dots> \<le> \<bar>x\<bar> / 2 ^ 53"
    using lo by (simp add: divide_right_mono)
  finally show ?thesis .
qed

lemma ilog2_fuel_numeral:
  "ilog2_fuel (numeral k) x =
     (if 2 \<le> x then ilog2_fuel (pred_numeral k) (x / 2) + 1
      else if x < 1 then ilog2_fuel (pred_numeral k) (2 * x) - 1
      else 0)"
  by (simp add: numeral_eq_Suc)

lemma round_half_even_nonneg: "0 \<le> x \<Longrightarrow> 0 \<le> round_half_even x"
proof -
  assume "0 \<le> x"
  then have "0 \<le> \<lfloor>x\<rfloor>" by simp
  then show ?thesis
    unfolding round_half_even_def Let_def by simp
qed

lemma round2_grid:
  assumes "0 \<le> x"
  shows "round2 x = 0 \<or> 1 / 100 \<le> round2 x"
proof -
  have "0 \<le> round_half_even (x * 100)"
    using assms by (intro round_half_even_nonneg) simp
  then have "round_half_even (x * 100) = 0 \<or> 1 \<le> round_half_even (x * 100)"
    by linarith
  then show ?thesis
  proof
    assume "round_half_even (x * 100) = 0"
    then show ?thesis by (simp add: round2_def)
  next
    assume "1 \<le> round_half_even (x * 100)"
    then have "(1::real) \<le> of_int (round_half_even (x * 100))" by simp
    then show ?thesis by (simp add: round2_def)
  qed
qed

lemma binary64_error_simple:
  assumes "x = 0 \<or> 1 / 2 ^ 70 \<le> x" and "x \<le> 2 ^ 80"
  shows "\<bar>binary64 x - x\<bar> \<le> x / 2 ^ 53"
proof (cases "x = 0")
  case True
  then show ?thesis by (simp add: binary64_def)
next
  case False
  then have lo: "1 / 2 ^ 70 \<le> x" using assms(1) by simp
  have "(0::real) < 1 / 2 ^ 70" by simp
  then have pos: "0 < x" using lo by linarith
  have "pow2 (- 1100) \<le> pow2 (- 70)" by (rule pow2_mono) simp
  moreover have "pow2 (- 70) = 1 / 2 ^ 70" by (simp add: pow2_def)
  ultimately have "pow2 (- 1100) \<le> x" using lo by linarith
  then have a: "pow2 (- 1100) \<le> \<bar>x\<bar>" using pos by simp
  have "pow2 80 \<le> pow2 1100" by (rule pow2_mono) simp
  moreover have "pow2 1100 < pow2 1101"
    using pow2_Suc [of 1100] pow2_pos [of 1100] by simp
  moreover have "pow2 80 = 2 ^ 80" by (simp add: pow2_def)
  ultimately have "x < pow2 1101" using assms(2) by linarith
  then have b: "\<bar>x\<bar> < pow2 1101" using pos by simp
  have "\<bar>binary64 x - x\<bar> \<le> \<bar>x\<bar> / 2 ^ 53"
    using a b by (intro binary64_error) simp
  then show ?thesis using pos by simp
qed

lemma abs_diff_upper: "\<bar>x - y\<bar> \<le> z \<Longrightarrow> x \<le> y + z" for x y z :: real
  by linarith

lemma abs_diff_lower: "\<bar>x - y\<bar> \<le> z \<Longrightarrow> y - z \<le> x" for x y z :: real
  by linarith

lemma abs_diff_leI: "x - y \<le> z \<Longrightarrow> - z \<le> x - y \<Longrightarrow> \<bar>x - y\<bar> \<le> z" for x y z :: real
  by linarith

lemma efficiency_error:
  fixes q :: real
  assumes "q = 0 \<or> 1 / 2 ^ 63 \<le> q" and "q \<le> 2 ^ 63"
  shows "\<bar>binary64 (round2 (binary64 (binary64 q * 100))) - q * 100\<bar>
           \<le> 1 / 200 + (4 * (q * 100) + 1) / 2 ^ 53"
proof -
  let ?q1 = "binary64 q"
  let ?p = "?q1 * 100"
  let ?q2 = "binary64 ?p"
  let ?r = "round2 ?q2"
  let ?e = "binary64 ?r"
  have n63: "(2::real) ^ 63 = 9223372036854775808" by simp
  have n70: "(2::real) ^ 70 = 1180591620717411303424" by simp
  have n80: "(2::real) ^ 80 = 1208925819614629174706176" by simp
  have n53: "(2::real) ^ 53 = 9007199254740992" by simp
  have q_lo: "q = 0 \<or> 1 / 9223372036854775808 \<le> q"
    using assms(1) unfolding n63 .
  have q_hi: "q \<le> 9223372036854775808"
    using assms(2) unfolding n63 .
  have q0: "0 \<le> q" using q_lo by linarith
  have "q = 0 \<or> 1 / 2 ^ 70 \<le> q"
    unfolding n70 using q_lo by linarith
  moreover have "q \<le> 2 ^ 80"
    unfolding n80 using q_hi by linarith
  ultimately have "\<bar>?q1 - q\<bar> \<le> q / 2 ^ 53"
    by (rule binary64_error_simple)
  then have e1: "\<bar>?q1 - q\<bar> \<le> q / 9007199254740992"
    unfolding n53 .
  have p_range: "?p = 0 \<or> 1 / 2 ^ 70 \<le> ?p"
  proof (cases "q = 0")
    case True
    then show ?thesis by (simp add: binary64_def)
  next
    case False
    then have "1 / 9223372036854775808 \<le> q" using q_lo by simp
    then have "1 / 1180591620717411303424 \<le> ?p" using e1 by linarith
    then show ?thesis unfolding n70 ..
  qed
  have p_hi: "?p \<le> 2 ^ 80"
    unfolding n80 using e1 q_hi by linarith
  have "\<bar>?q2 - ?p\<bar> \<le> ?p / 2 ^ 53"
    using p_range p_hi by (rule binary64_error_simple)
  then have e2: "\<bar>?q2 - ?p\<bar> \<le> ?p / 9007199254740992"
    unfolding n53 .
  have q2_nonneg: "0 \<le> ?q2" using e1 e2 q0 by linarith
  have e3: "\<bar>?r - ?q2\<bar> \<le> 1 / 200" by (rule round2_near)
  have "?r = 0 \<or> 1 / 100 \<le> ?r"
    by (rule round2_grid [OF q2_nonneg])
  then have r_range: "?r = 0 \<or> 1 / 2 ^ 70 \<le> ?r"
    unfolding n70 by linarith
  have r_hi: "?r \<le> 2 ^ 80"
    unfolding n80 using e1 e2 e3 q_hi by linarith
  have "\<bar>?e - ?r\<bar> \<le> ?r / 2 ^ 53"
    using r_range r_hi by (rule binary64_error_simple)
  then have e4: "\<bar>?e - ?r\<bar> \<le> ?r / 9007199254740992"
    unfolding n53 .
  note a1 = abs_diff_upper [OF e1] and a2 = abs_diff_lower [OF e1]
  note b1 = abs_diff_upper [OF e2] and b2 = abs_diff_lower [OF e2]
  note c1 = abs_diff_upper [OF e3] and c2 = abs_diff_lower [OF e3]
  note d1 = abs_diff_upper [OF e4] and d2 = abs_diff_lower [OF e4]
  have p1: "?p \<le> 100 * q + 100 * q / 9007199254740992"
    using a1 by linarith
  have p2: "100 * q - 100 * q / 9007199254740992 \<le> ?p"
    using a2 by linarith
  have p3: "?p \<le> 101 * q" using p1 q0 by linarith
  have q2_1: "?q2 \<le> ?p + 101 * q / 9007199254740992"
    using b1 p3 by linarith
  have q2_2: "?p - 101 * q / 9007199254740992 \<le> ?q2"
    using b2 p3 by linarith
  have q2_3: "?q2 \<le> 102 * q" using q2_1 p3 q0 by linarith
  have r3: "?r \<le> 102 * q + 1 / 200" using c1 q2_3 by linarith
  have r0: "0 \<le> ?r"
    using \<open>?r = 0 \<or> 1 / 100 \<le> ?r\<close> by linarith
  have e_1: "?e \<le> ?r + 102 * q / 9007199254740992 + 1 / 9007199254740992"
    using d1 r3 by linarith
  have e_2: "?r - 102 * q / 9007199254740992 - 1 / 9007199254740992 \<le> ?e"
    using d2 r3 by linarith
  have up: "?e - q * 100 \<le> 1 / 200 + (400 * q / 9007199254740992 + 1 / 9007199254740992)"
    using e_1 c1 q2_1 p1 q0 by linarith
  have dn: "- (1 / 200 + (400 * q / 9007199254740992 + 1 / 9007199254740992)) \<le> ?e - q * 100"
    using e_2 c2 q2_2 p2 q0 by linarith
  have "\<bar>?e - q * 100\<bar> \<le> 1 / 200 + (400 * q / 9007199254740992 + 1 / 9007199254740992)"
    using up dn by (rule abs_diff_leI)
  moreover have "(4 * (q * 100) + 1) / 9007199254740992 =
      400 * q / 9007199254740992 + 1 / 9007199254740992"
    by (simp add: add_divide_distrib)
  ultimately have "\<bar>?e - q * 100\<bar> \<le> 1 / 200 + (4 * (q * 100) + 1) / 9007199254740992"
    by (simp only:)
  then show ?thesis unfolding n53 .
qed

lemma stats_fields:
  assumes "matches \<noteq> []"
  shows "get_matching_statistics matches meetings = StatsDict st \<Longrightarrow>
     total_matches st = int (length matches) \<and>
     stat_scheduled_meetings st = int (length meetings) \<and>
     unscheduled_matches st = int (length matches) - int (length meetings) \<and>
     scheduling_efficiency st =
       binary64 (round2 (binary64
         (binary64 (real (length meetings) / real (length matches)) * 100)))"
  using assms by (auto simp: get_matching_statistics_def Let_def)

lemma quotient_range:
  fixes s t :: nat
  assumes "0 < t" and "t < 2 ^ 63" and "s < 2 ^ 63"
  shows "(real s / real t = 0 \<or> 1 / 2 ^ 63 \<le> real s / real t) \<and> real s / real t \<le> 2 ^ 63"
proof -
  have t1: "1 \<le> real t" using assms(1) by simp
  have t2: "real t \<le> 2 ^ 63"
    using assms(2) by (metis less_imp_le of_nat_le_iff of_nat_numeral of_nat_power)
  have s2: "real s \<le> 2 ^ 63"
    using assms(3) by (metis less_imp_le of_nat_le_iff of_nat_numeral of_nat_power)
  have hi: "real s / real t \<le> 2 ^ 63"
  proof -
    have "real s / real t \<le> real s / 1"
      using t1 by (intro divide_left_mono) simp_all
    then show ?thesis using s2 by simp
  qed
  have lo: "real s / real t = 0 \<or> 1 / 2 ^ 63 \<le> real s / real t"
  proof (cases "s = 0")
    case True
    then show ?thesis by simp
  next
    case False
    then have s1: "1 \<le> real s" by simp
    have "1 / 2 ^ 63 \<le> 1 / real t"
      using t1 t2 by (intro divide_left_mono) simp_all
    also have "\<dots> \<le> real s / real t"
      using s1 t1 by (intro divide_right_mono) simp_all
    finally show ?thesis ..
  qed
  from lo hi show ?thesis ..
qed

section \<open>Runs on the concrete inputs\<close>

lemma find_matches_three:
  "find_matches remdups default_weights [lone_buyer] three_sellers = Inr three_matches"
  by (simp add: find_matches_def process_double_matches_def process_seller_choices_def
      process_ai_suggestions_def print_summary_def initial_state_def ai_step_def plain_buyer_def
      plain_seller_def lone_buyer_def three_sellers_def three_matches_def
      ai_candidates_def Let_def double_match_step_def seller_choice_step_def record_match_def
      new_match_def get_or_def calculate_compatibility_score_def weighted_sum_def
      interest_score_def investment_score_def size_score_def facility_score_def
      default_weights_def)

lemma create_schedule_shuffled:
  "create_schedule shuffled_matches [slot_001, slot_002] =
     ([new_meeting (new_match ''b1'' ''s1'' double_match (41 / 2) 1) slot_001,
       new_meeting (new_match ''b1'' ''s2'' seller_choice (41 / 2) 2) slot_002],
      [new_match ''b1'' ''s3'' ai_suggestion (41 / 2) 3,
       (new_match ''b1'' ''s1'' double_match (41 / 2) 1)
         \<lparr>meeting_scheduled := True, time_slot := Some ''slot_001''\<rparr>,
       (new_match ''b1'' ''s2'' seller_choice (41 / 2) 2)
         \<lparr>meeting_scheduled := True, time_slot := Some ''slot_002''\<rparr>])"
  by (simp add: create_schedule_def sorted_matches_def shuffled_matches_def schedule_step_def
      find_slot_def new_match_def new_meeting_def slot_001_def slot_002_def get_or_def Let_def
      upt_rec [of 0])

lemma distinct_map_nth_neq:
  assumes "distinct (map f xs)" and "i < length xs" and "j < length xs" and "i \<noteq> j"
  shows "f (xs ! i) \<noteq> f (xs ! j)"
  using nth_eq_iff_index_eq [of "map f xs" i j] assms by simp

lemma efficiency_one_of_three:
  "binary64 (round2 (binary64 (binary64 (1 / 3) * 100))) = 2345390243441541 / 70368744177664"
  by (simp add: binary64_def exponent_def ilog2_fuel_numeral pow2_def round_half_even_def
      round2_def Let_def)

section \<open>The claims\<close>

text \<open>
  C1. Every buyer is to end with exactly five matches when at least five sellers are
  available to it, and under-quota is to raise no error. The generator does not keep
  this: step 1 appends every mutual selection without looking at the buyer's count, so a
  buyer with six mutual selections ends with six matches; and with no seller at all the
  summary divides by zero. The theorem evaluates \<open>find_matches\<close> at both inputs.
\<close>

theorem find_matches_over_quota:
  "map_sum id (map (\<lambda>m. (pair_of m, match_type m)))
     (find_matches remdups default_weights [keen_buyer] six_sellers) =
   Inr [((''b1'', ''s1''), double_match), ((''b1'', ''s2''), double_match),
        ((''b1'', ''s3''), double_match), ((''b1'', ''s4''), double_match),
        ((''b1'', ''s5''), double_match), ((''b1'', ''s6''), double_match)]
   \<and> find_matches remdups default_weights [lone_buyer] [] = Inl ZeroDivisionError"
  by (simp add: find_matches_def process_double_matches_def process_seller_choices_def
      process_ai_suggestions_def print_summary_def initial_state_def ai_step_def plain_buyer_def
      plain_seller_def keen_buyer_def six_sellers_def six_ids_def lone_buyer_def
      ai_candidates_def Let_def double_match_step_def seller_choice_step_def record_match_def
      new_match_def get_or_def pair_of_def)

text \<open>
  C2. With unique buyer identifiers and unique seller identifiers, the match list that
  \<open>find_matches\<close> returns holds every (buyer id, seller id) pair at most once, whatever
  the match types and whatever the order in which the selection sets are visited.
\<close>

theorem find_matches_pairs_unique:
  assumes "distinct (map b_id buyers)" and "distinct (map s_id sellers)"
    and "find_matches iter w buyers sellers = Inr ms"
  shows "distinct (map (\<lambda>m. (buyer_id m, seller_id m)) ms)"
  using find_matches_pairs_distinct [OF assms] by (simp add: pair_of_def [abs_def])

theorem find_matches_pairs_unique_witness:
  "distinct (map b_id [lone_buyer]) \<and> distinct (map s_id three_sellers) \<and>
   find_matches remdups default_weights [lone_buyer] three_sellers = Inr three_matches \<and>
   distinct (map (\<lambda>m. (buyer_id m, seller_id m)) three_matches)"
proof -
  have h1: "distinct (map b_id [lone_buyer])" by simp
  have h2: "distinct (map s_id three_sellers)"
    by (simp add: three_sellers_def plain_seller_def)
  note h3 = find_matches_three
  show ?thesis
    using h1 h2 h3 find_matches_pairs_unique [OF h1 h2 h3] by simp
qed

text \<open>
  C3. In the meeting list that \<open>create_schedule\<close> returns, two meetings at different
  positions never have the same time-slot identifier together with the same buyer
  identifier, nor the same time-slot identifier together with the same seller
  identifier. This holds for every match list and every slot list; unique slot
  identifiers are not needed.
\<close>

theorem create_schedule_conflict_free:
  "\<forall>i j. i < length (fst (create_schedule matches time_slots)) \<and>
          j < length (fst (create_schedule matches time_slots)) \<and> i \<noteq> j \<longrightarrow>
     \<not> (mtg_time_slot (fst (create_schedule matches time_slots) ! i) =
          mtg_time_slot (fst (create_schedule matches time_slots) ! j) \<and>
        mtg_buyer_id (fst (create_schedule matches time_slots) ! i) =
          mtg_buyer_id (fst (create_schedule matches time_slots) ! j)) \<and>
     \<not> (mtg_time_slot (fst (create_schedule matches time_slots) ! i) =
          mtg_time_slot (fst (create_schedule matches time_slots) ! j) \<and>
        mtg_seller_id (fst (create_schedule matches time_slots) ! i) =
          mtg_seller_id (fst (create_schedule matches time_slots) ! j))"
proof -
  let ?mtgs = "fst (create_schedule matches time_slots)"
  have "conflict_free (fst ([], matches))"
    by (simp add: conflict_free_def)
  then have "conflict_free ?mtgs"
    unfolding create_schedule_is_greedy by (rule greedy_conflict_free)
  then have b: "distinct (map (\<lambda>g. (mtg_time_slot g, mtg_buyer_id g)) ?mtgs)"
    and s: "distinct (map (\<lambda>g. (mtg_time_slot g, mtg_seller_id g)) ?mtgs)"
    by (simp_all add: conflict_free_def)
  show ?thesis
  proof (intro allI impI)
    fix i j
    assume h: "i < length ?mtgs \<and> j < length ?mtgs \<and> i \<noteq> j"
    have "(mtg_time_slot (?mtgs ! i), mtg_buyer_id (?mtgs ! i)) \<noteq>
          (mtg_time_slot (?mtgs ! j), mtg_buyer_id (?mtgs ! j))"
      using distinct_map_nth_neq [OF b, of i j] h by simp
    moreover have "(mtg_time_slot (?mtgs ! i), mtg_seller_id (?mtgs ! i)) \<noteq>
          (mtg_time_slot (?mtgs ! j), mtg_seller_id (?mtgs ! j))"
      using distinct_map_nth_neq [OF s, of i j] h by simp
    ultimately show "\<not> (mtg_time_slot (?mtgs ! i) = mtg_time_slot (?mtgs ! j) \<and>
        mtg_buyer_id (?mtgs ! i) = mtg_buyer_id (?mtgs ! j)) \<and>
     \<not> (mtg_time_slot (?mtgs ! i) = mtg_time_slot (?mtgs ! j) \<and>
        mtg_seller_id (?mtgs ! i) = mtg_seller_id (?mtgs ! j))"
      using h by simp
  qed
qed

theorem create_schedule_conflict_free_witness:
  "((0::nat) < length (fst (create_schedule shuffled_matches [slot_001, slot_002])) \<and>
    (1::nat) < length (fst (create_schedule shuffled_matches [slot_001, slot_002])) \<and>
    (0::nat) \<noteq> 1) \<and>
   \<not> (mtg_time_slot (fst (create_schedule shuffled_matches [slot_001, slot_002]) ! 0) =
        mtg_time_slot (fst (create_schedule shuffled_matches [slot_001, slot_002]) ! 1) \<and>
      mtg_buyer_id (fst (create_schedule shuffled_matches [slot_001, slot_002]) ! 0) =
        mtg_buyer_id (fst (create_schedule shuffled_matches [slot_001, slot_002]) ! 1)) \<and>
   \<not> (mtg_time_slot (fst (create_schedule shuffled_matches [slot_001, slot_002]) ! 0) =
        mtg_time_slot (fst (create_schedule shuffled_matches [slot_001, slot_002]) ! 1) \<and>
      mtg_seller_id (fst (create_schedule shuffled_matches [slot_001, slot_002]) ! 0) =
        mtg_seller_id (fst (create_schedule shuffled_matches [slot_001, slot_002]) ! 1))"
proof -
  have h: "(0::nat) < length (fst (create_schedule shuffled_matches [slot_001, slot_002])) \<and>
    (1::nat) < length (fst (create_schedule shuffled_matches [slot_001, slot_002])) \<and>
    (0::nat) \<noteq> 1"
    by (simp add: create_schedule_shuffled)
  from create_schedule_conflict_free [of shuffled_matches "[slot_001, slot_002]"]
  have "(0::nat) < length (fst (create_schedule shuffled_matches [slot_001, slot_002])) \<and>
    (1::nat) < length (fst (create_schedule shuffled_matches [slot_001, slot_002])) \<and>
    (0::nat) \<noteq> 1 \<longrightarrow>
   \<not> (mtg_time_slot (fst (create_schedule shuffled_matches [slot_001, slot_002]) ! 0) =
        mtg_time_slot (fst (create_schedule shuffled_matches [slot_001, slot_002]) ! 1) \<and>
      mtg_buyer_id (fst (create_schedule shuffled_matches [slot_001, slot_002]) ! 0) =
        mtg_buyer_id (fst (create_schedule shuffled_matches [slot_001, slot_002]) ! 1)) \<and>
   \<not> (mtg_time_slot (fst (create_schedule shuffled_matches [slot_001, slot_002]) ! 0) =
        mtg_time_slot (fst (create_schedule shuffled_matches [slot_001, slot_002]) ! 1) \<and>
      mtg_seller_id (fst (create_schedule shuffled_matches [slot_001, slot_002]) ! 0) =
        mtg_seller_id (fst (create_schedule shuffled_matches [slot_001, slot_002]) ! 1))"
    by blast
  with h show ?thesis by blast
qed

text \<open>
  C4. The claim says that weights which do not sum to 1 are re-normalized before the
  weighted sum is taken, so that scoring with weights \<open>w\<close> equals scoring with \<open>w\<close> scaled
  to sum 1. The scorer has no such step: with the default weights doubled it returns 41
  where the scaled weights give 20.5. The scaling is done by the caller in \<open>app.py\<close>
  before it installs the weights.
\<close>

theorem score_not_renormalized_counterexample:
  "calculate_compatibility_score doubled_weights lone_buyer (plain_seller ''s1'' []) \<noteq>
   calculate_compatibility_score (app_install_weights doubled_weights) lone_buyer
     (plain_seller ''s1'' [])"
  by (simp add: calculate_compatibility_score_def weighted_sum_def interest_score_def
      investment_score_def size_score_def facility_score_def doubled_weights_def
      app_install_weights_def weights_total_def lone_buyer_def plain_buyer_def plain_seller_def
      get_or_def Let_def)

text \<open>
  C4 as amended. The scorer uses the weights as it finds them. For non-negative weights
  with a positive total \<open>S\<close>, the score is the smaller of 100 and \<open>S\<close> times the score
  under the weights scaled to sum 1 (the weights the caller in \<open>app.py\<close> installs, whose
  total is 1); the two scores agree when \<open>S = 1\<close>.
\<close>

theorem score_under_scaled_weights:
  assumes "nonneg_weights w" and "0 < weights_total w"
  shows "calculate_compatibility_score w b s =
           min (weights_total w * calculate_compatibility_score (app_install_weights w) b s) 100
         \<and> weights_total (app_install_weights w) = 1"
proof -
  let ?S = "weights_total w"
  have le: "weighted_sum w b s / ?S \<le> 1"
    using weighted_sum_le_total [OF assms(1), of b s] assms(2) by (simp add: divide_le_eq_1)
  have "weighted_sum w b s / ?S * 100 \<le> 1 * 100"
    using le by (intro mult_right_mono) simp_all
  then have "weighted_sum w b s / ?S * 100 \<le> 100"
    by (simp only: mult_1)
  then have "calculate_compatibility_score (app_install_weights w) b s = weighted_sum w b s / ?S * 100"
    unfolding calculate_compatibility_score_def weighted_sum_scaled [OF assms(2)]
    by (rule min_absorb1)
  then have "?S * calculate_compatibility_score (app_install_weights w) b s = weighted_sum w b s * 100"
    using assms(2) by simp
  moreover have "weights_total (app_install_weights w) = 1"
    using assms(2)
    by (simp add: app_install_weights_def Let_def weights_total_def add_divide_distrib [symmetric])
  ultimately show ?thesis
    by (simp add: calculate_compatibility_score_def)
qed


theorem score_under_scaled_weights_witness:
  "(nonneg_weights doubled_weights \<and> 0 < weights_total doubled_weights) \<and>
   calculate_compatibility_score doubled_weights buyer_001 seller_001 =
     min (weights_total doubled_weights *
          calculate_compatibility_score (app_install_weights doubled_weights) buyer_001
            seller_001) 100 \<and>
   weights_total (app_install_weights doubled_weights) = 1 \<and>
   calculate_compatibility_score doubled_weights buyer_001 seller_001 = 100"
proof -
  have h1: "nonneg_weights doubled_weights"
    by (simp add: nonneg_weights_def doubled_weights_def)
  have h2: "0 < weights_total doubled_weights"
    by (simp add: weights_total_def doubled_weights_def)
  have v: "calculate_compatibility_score doubled_weights buyer_001 seller_001 = 100"
    by (simp add: calculate_compatibility_score_def weighted_sum_def interest_score_def
        investment_score_def size_score_def facility_score_def doubled_weights_def
        buyer_001_def seller_001_def get_or_def Let_def)
  show ?thesis
    using h1 h2 v score_under_scaled_weights [OF h1 h2, of buyer_001 seller_001] by simp
qed

text \<open>
  C5. \<open>create_schedule\<close> processes the matches by priority ascending, then compatibility
  score descending (a stable sort of the given list, so every match is processed once),
  and gives each match the first slot, in the given slot order, at which no meeting
  placed so far has its buyer or its seller; it marks the match as scheduled with that
  slot. A match without such a slot is passed over: no meeting is made for it and the
  meetings already placed stay as they are. \<open>greedy_first_fit\<close> is that procedure, and the
  code, which tracks the slots in two dictionaries, computes the same result.
\<close>

theorem create_schedule_greedy_first_fit:
  "create_schedule matches time_slots =
     greedy_first_fit time_slots (sorted_matches matches) ([], matches)
   \<and> sorted_wrt (\<lambda>x y. schedule_order (snd x) (snd y)) (sorted_matches matches)
   \<and> mset (sorted_matches matches) = mset (zip [0 ..< length matches] matches)"
  using create_schedule_is_greedy [of matches time_slots] sorted_matches_order [of matches]
    sorted_matches_mset [of matches]
  by simp

theorem create_schedule_greedy_first_fit_witness:
  "create_schedule shuffled_matches [slot_001, slot_002] =
     greedy_first_fit [slot_001, slot_002] (sorted_matches shuffled_matches)
       ([], shuffled_matches)
   \<and> fst (greedy_first_fit [slot_001, slot_002] (sorted_matches shuffled_matches)
            ([], shuffled_matches)) =
       [new_meeting (new_match ''b1'' ''s1'' double_match (41 / 2) 1) slot_001,
        new_meeting (new_match ''b1'' ''s2'' seller_choice (41 / 2) 2) slot_002]
   \<and> map meeting_scheduled
        (snd (greedy_first_fit [slot_001, slot_002] (sorted_matches shuffled_matches)
               ([], shuffled_matches))) = [False, True, True]"
proof -
  have e: "create_schedule shuffled_matches [slot_001, slot_002] =
     greedy_first_fit [slot_001, slot_002] (sorted_matches shuffled_matches)
       ([], shuffled_matches)"
    using create_schedule_greedy_first_fit [of shuffled_matches "[slot_001, slot_002]"]
    by (rule conjunct1)
  note g = create_schedule_shuffled [unfolded e]
  show ?thesis
    unfolding g using e [unfolded g] by (simp add: new_match_def)
qed

text \<open>
  C6. No core operation is to raise on empty input. \<open>create_schedule\<close> returns an empty
  meeting list and \<open>get_matching_statistics\<close> returns the dictionary
  \<open>{'error': 'No matches found'}\<close>, but \<open>find_matches\<close> on no buyers and no sellers does not
  return an empty list: its summary divides by the number of matches and raises
  ZeroDivisionError.
\<close>

theorem find_matches_empty_raises:
  "find_matches iter w [] [] = Inl ZeroDivisionError
   \<and> create_schedule [] time_slots = ([], [])
   \<and> get_matching_statistics [] meetings = ErrorDict ''No matches found''"
  by (simp add: find_matches_def process_double_matches_def process_seller_choices_def
      process_ai_suggestions_def print_summary_def initial_state_def create_schedule_def
      sorted_matches_def get_matching_statistics_def)

text \<open>
  C7. The claim says that the efficiency equals scheduled/total*100. The code rounds it
  to two decimals: with three matches and one meeting it returns the double 33.33, not
  100/3.
\<close>

theorem efficiency_not_exact_counterexample:
  "scheduling_efficiency (the_stats (get_matching_statistics three_matches one_meeting)) \<noteq>
   real_of_int (stat_scheduled_meetings
                  (the_stats (get_matching_statistics three_matches one_meeting)))
   / real_of_int (total_matches
                    (the_stats (get_matching_statistics three_matches one_meeting)))
   * 100"
proof -
  have ne: "three_matches \<noteq> []" by (simp add: three_matches_def)
  have l: "length three_matches = 3" "length one_meeting = 1"
    by (simp_all add: three_matches_def one_meeting_def)
  obtain st where st: "get_matching_statistics three_matches one_meeting = StatsDict st"
    using ne by (simp add: get_matching_statistics_def Let_def)
  note f = stats_fields [OF ne st, unfolded l]
  have t: "total_matches st = 3" and m: "stat_scheduled_meetings st = 1"
    using f by simp_all
  have "scheduling_efficiency st = binary64 (round2 (binary64 (binary64 (real 1 / real 3) * 100)))"
    using f by blast
  then have e: "scheduling_efficiency st = 2345390243441541 / 70368744177664"
    using efficiency_one_of_three by simp
  show ?thesis
    unfolding st stats_result.sel e t m by simp
qed

text \<open>
  C7 as amended. For a non-empty match list and a meeting list, each shorter than
  \<open>2^63\<close> as every Python list is, the result is the dictionary of statistics, in which
  scheduled_meetings + unscheduled_matches = total_matches and the two counts are the
  lengths of the two lists. The efficiency is not scheduled/total*100 itself: it is the
  double quotient times 100, rounded to two decimals by \<open>round(.., 2)\<close>, and it differs from
  the exact scheduled/total*100 by at most \<open>0.005 + (4 * scheduled/total*100 + 1) / 2^53\<close>.
\<close>

theorem stats_accounting:
  assumes "matches \<noteq> []"
    and "length matches < 2 ^ 63" and "length meetings < 2 ^ 63"
  shows "\<not> is_error_dict (get_matching_statistics matches meetings) \<and>
     total_matches (the_stats (get_matching_statistics matches meetings))
       = int (length matches) \<and>
     stat_scheduled_meetings (the_stats (get_matching_statistics matches meetings))
       = int (length meetings) \<and>
     stat_scheduled_meetings (the_stats (get_matching_statistics matches meetings))
       + unscheduled_matches (the_stats (get_matching_statistics matches meetings))
       = total_matches (the_stats (get_matching_statistics matches meetings)) \<and>
     scheduling_efficiency (the_stats (get_matching_statistics matches meetings))
       = binary64 (round2 (binary64
           (binary64 (real (length meetings) / real (length matches)) * 100))) \<and>
     \<bar>scheduling_efficiency (the_stats (get_matching_statistics matches meetings))
        - real (length meetings) / real (length matches) * 100\<bar>
       \<le> 1 / 200 + (4 * (real (length meetings) / real (length matches) * 100) + 1) / 2 ^ 53"
proof -
  obtain st where st: "get_matching_statistics matches meetings = StatsDict st"
    using assms(1) by (simp add: get_matching_statistics_def Let_def)
  note f = stats_fields [OF assms(1) st]
  have pos: "0 < length matches" using assms(1) by simp
  note r = quotient_range [OF pos assms(2) assms(3)]
  have e: "\<bar>binary64 (round2 (binary64
              (binary64 (real (length meetings) / real (length matches)) * 100)))
           - real (length meetings) / real (length matches) * 100\<bar>
       \<le> 1 / 200 + (4 * (real (length meetings) / real (length matches) * 100) + 1) / 2 ^ 53"
    using r by (intro efficiency_error) simp_all
  have eff: "scheduling_efficiency st =
       binary64 (round2 (binary64
         (binary64 (real (length meetings) / real (length matches)) * 100)))"
    using f by simp
  have "\<bar>scheduling_efficiency st - real (length meetings) / real (length matches) * 100\<bar>
       \<le> 1 / 200 + (4 * (real (length meetings) / real (length matches) * 100) + 1) / 2 ^ 53"
    unfolding eff by (rule e)
  then show ?thesis
    using f st by simp
qed

theorem stats_accounting_witness:
  "(many_matches \<noteq> [] \<and> length many_matches < 2 ^ 63 \<and> length some_meetings < 2 ^ 63) \<and>
   \<not> is_error_dict (get_matching_statistics many_matches some_meetings) \<and>
   total_matches (the_stats (get_matching_statistics many_matches some_meetings)) = 160 \<and>
   stat_scheduled_meetings (the_stats (get_matching_statistics many_matches some_meetings))
     = 23 \<and>
   stat_scheduled_meetings (the_stats (get_matching_statistics many_matches some_meetings))
     + unscheduled_matches (the_stats (get_matching_statistics many_matches some_meetings))
     = total_matches (the_stats (get_matching_statistics many_matches some_meetings)) \<and>
   scheduling_efficiency (the_stats (get_matching_statistics many_matches some_meetings))
     = 8089590830664253 / 562949953421312 \<and>
   \<bar>scheduling_efficiency (the_stats (get_matching_statistics many_matches some_meetings))
      - 23 / 160 * 100\<bar> \<le> 1 / 200 + (4 * (23 / 160 * 100) + 1) / 2 ^ 53"
proof -
  have h1: "many_matches \<noteq> []" by (simp add: many_matches_def)
  have l1: "length many_matches = 160" by (simp add: many_matches_def)
  have l2: "length some_meetings = 23" by (simp add: some_meetings_def)
  have h2: "length many_matches < 2 ^ 63" unfolding l1 by simp
  have h3: "length some_meetings < 2 ^ 63" unfolding l2 by simp
  have v: "binary64 (round2 (binary64 (binary64 (23 / 160) * 100)))
             = 8089590830664253 / 562949953421312"
    by (simp add: binary64_def exponent_def ilog2_fuel_numeral pow2_def round_half_even_def
        round2_def Let_def)
  note t = stats_accounting [OF h1 h2 h3, unfolded l1 l2]
  have t1: "\<not> is_error_dict (get_matching_statistics many_matches some_meetings)"
    using t by (rule conjunct1)
  have t2: "total_matches (the_stats (get_matching_statistics many_matches some_meetings)) = 160"
    using t by simp
  have t3: "stat_scheduled_meetings
              (the_stats (get_matching_statistics many_matches some_meetings)) = 23"
    using t by simp
  have t4: "stat_scheduled_meetings (the_stats (get_matching_statistics many_matches some_meetings))
     + unscheduled_matches (the_stats (get_matching_statistics many_matches some_meetings))
     = total_matches (the_stats (get_matching_statistics many_matches some_meetings))"
    using t by blast
  have "scheduling_efficiency (the_stats (get_matching_statistics many_matches some_meetings))
     = binary64 (round2 (binary64 (binary64 (real 23 / real 160) * 100)))"
    using t by blast
  then have t5: "scheduling_efficiency
        (the_stats (get_matching_statistics many_matches some_meetings))
     = 8089590830664253 / 562949953421312"
    using v by simp
  have "\<bar>scheduling_efficiency (the_stats (get_matching_statistics many_matches some_meetings))
      - real 23 / real 160 * 100\<bar> \<le> 1 / 200 + (4 * (real 23 / real 160 * 100) + 1) / 2 ^ 53"
    using t by blast
  then have t6: "\<bar>scheduling_efficiency
       (the_stats (get_matching_statistics many_matches some_meetings))
      - 23 / 160 * 100\<bar> \<le> 1 / 200 + (4 * (23 / 160 * 100) + 1) / 2 ^ 53"
    by simp
  show ?thesis
    by (intro conjI h1 h2 h3 t1 t2 t3 t4 t5 t6)
qed

text \<open>
  C8. For all buyer and seller records, also with optional fields missing, the score
  lies between 0 and 100 under non-negative weights (the default weights are such); the
  score is a function of its arguments, so it is deterministic and cannot fail; it does
  not change when the interest list or the product list is replaced by any list with the
  same elements, in any order; and a missing interest list, investment amount, location
  count or product list counts as the empty list, 0, 1 and the empty list.
\<close>

theorem score_range_and_order_invariance:
  assumes "nonneg_weights w"
    and "set xs = set (get_or [] (b_interests b))"
    and "set ys = set (get_or [] (s_products s))"
  shows "0 \<le> calculate_compatibility_score w b s \<and>
     calculate_compatibility_score w b s \<le> 100 \<and>
     calculate_compatibility_score w (b\<lparr>b_interests := Some xs\<rparr>) (s\<lparr>s_products := Some ys\<rparr>)
       = calculate_compatibility_score w b s \<and>
     calculate_compatibility_score w
         (b\<lparr>b_interests := None, b_investment_amount := None, b_locations := None\<rparr>)
         (s\<lparr>s_products := None\<rparr>)
       = calculate_compatibility_score w
           (b\<lparr>b_interests := Some [], b_investment_amount := Some 0, b_locations := Some 1\<rparr>)
           (s\<lparr>s_products := Some []\<rparr>)"
proof -
  have "0 \<le> weighted_sum w b s * 100"
    using weighted_sum_nonneg [OF assms(1), of b s] by simp
  then have r1: "0 \<le> calculate_compatibility_score w b s"
    by (simp add: calculate_compatibility_score_def)
  have r2: "calculate_compatibility_score w b s \<le> 100"
    by (simp add: calculate_compatibility_score_def)
  have o: "calculate_compatibility_score w (b\<lparr>b_interests := Some xs\<rparr>) (s\<lparr>s_products := Some ys\<rparr>)
       = calculate_compatibility_score w b s"
  proof (rule score_cong)
    show "set (get_or [] (b_interests (b\<lparr>b_interests := Some xs\<rparr>))) = set (get_or [] (b_interests b))"
      using assms(2) by (simp add: get_or_def)
    show "set (get_or [] (s_products (s\<lparr>s_products := Some ys\<rparr>))) = set (get_or [] (s_products s))"
      using assms(3) by (simp add: get_or_def)
  qed simp_all
  have d: "calculate_compatibility_score w
         (b\<lparr>b_interests := None, b_investment_amount := None, b_locations := None\<rparr>)
         (s\<lparr>s_products := None\<rparr>)
       = calculate_compatibility_score w
           (b\<lparr>b_interests := Some [], b_investment_amount := Some 0, b_locations := Some 1\<rparr>)
           (s\<lparr>s_products := Some []\<rparr>)"
    by (rule score_defaults) (simp_all add: get_or_def)
  from r1 r2 o d show ?thesis by (intro conjI)
qed

theorem score_range_and_order_invariance_witness:
  "(nonneg_weights default_weights \<and>
    set [''Supplements'', ''Equipment'', ''Technology'', ''Equipment''] =
      set (get_or [] (b_interests buyer_001)) \<and>
    set [''Technology'', ''Equipment''] = set (get_or [] (s_products seller_001))) \<and>
   0 \<le> calculate_compatibility_score default_weights buyer_001 seller_001 \<and>
   calculate_compatibility_score default_weights buyer_001 seller_001 \<le> 100 \<and>
   calculate_compatibility_score default_weights
       (buyer_001\<lparr>b_interests := Some [''Supplements'', ''Equipment'', ''Technology'', ''Equipment'']\<rparr>)
       (seller_001\<lparr>s_products := Some [''Technology'', ''Equipment'']\<rparr>)
     = calculate_compatibility_score default_weights buyer_001 seller_001 \<and>
   calculate_compatibility_score default_weights buyer_001 seller_001 = 433 / 6"
proof -
  have h1: "nonneg_weights default_weights"
    by (simp add: nonneg_weights_def default_weights_def)
  have h2: "set [''Supplements'', ''Equipment'', ''Technology'', ''Equipment''] =
      set (get_or [] (b_interests buyer_001))"
    by (auto simp: buyer_001_def get_or_def)
  have h3: "set [''Technology'', ''Equipment''] = set (get_or [] (s_products seller_001))"
    by (auto simp: seller_001_def get_or_def)
  have v: "calculate_compatibility_score default_weights buyer_001 seller_001 = 433 / 6"
    by (simp add: calculate_compatibility_score_def weighted_sum_def interest_score_def
        investment_score_def size_score_def facility_score_def default_weights_def
        buyer_001_def seller_001_def get_or_def Let_def)
  note t = score_range_and_order_invariance [OF h1 h2 h3]
  show ?thesis
    by (intro conjI h1 h2 h3 v t [THEN conjunct1] t [THEN conjunct2, THEN conjunct1]
        t [THEN conjunct2, THEN conjunct2, THEN conjunct1])
qed

text \<open>
  C9. With the default weights the score is at least 20.5 for every buyer and seller, and
  so never 0: the investment, company-size and facility sub-scores are at least 0.2, 0.4
  and 0.5 and the relationship bonus is the constant 0.5. The bound is attained by a
  buyer and a seller without any optional field.
\<close>

theorem score_floor_default:
  "41 / 2 \<le> calculate_compatibility_score default_weights b s
   \<and> calculate_compatibility_score default_weights b s \<noteq> 0
   \<and> 2 / 10 \<le> investment_score b \<and> 4 / 10 \<le> size_score b
   \<and> 5 / 10 \<le> facility_score b s
   \<and> calculate_compatibility_score default_weights lone_buyer (plain_seller ''s1'' []) = 41 / 2"
proof -
  have a: "calculate_compatibility_score default_weights lone_buyer (plain_seller ''s1'' []) = 41 / 2"
    by (simp add: calculate_compatibility_score_def weighted_sum_def interest_score_def
        investment_score_def size_score_def facility_score_def default_weights_def
        lone_buyer_def plain_buyer_def plain_seller_def get_or_def Let_def)
  have "205 / 1000 * 100 \<le> weighted_sum default_weights b s * 100"
    using weighted_sum_default_floor [of b s] by (intro mult_right_mono) simp_all
  then have f: "41 / 2 \<le> calculate_compatibility_score default_weights b s"
    by (simp add: calculate_compatibility_score_def)
  then have n: "calculate_compatibility_score default_weights b s \<noteq> 0"
    by linarith
  from a f n investment_score_bounds [of b] size_score_bounds [of b]
    facility_score_bounds [of b s]
  show ?thesis by blast
qed

text \<open>
  C10. The score depends only on the buyer's interests, investment amount, location count
  and facility type and on the seller's products: two runs that agree on these fields
  return the same score, whatever the names, companies, selection lists, regions and
  sponsorship tiers are.
\<close>

theorem score_depends_only_on_scored_fields:
  assumes "b_interests b' = b_interests b"
    and "b_investment_amount b' = b_investment_amount b"
    and "b_locations b' = b_locations b"
    and "b_facility_type b' = b_facility_type b"
    and "s_products s' = s_products s"
  shows "calculate_compatibility_score w b' s' = calculate_compatibility_score w b s"
  using assms
  by (simp add: calculate_compatibility_score_def weighted_sum_def interest_score_def
      investment_score_def size_score_def facility_score_def)

theorem score_depends_only_on_scored_fields_witness:
  "(b_interests other_buyer = b_interests buyer_001 \<and>
    b_investment_amount other_buyer = b_investment_amount buyer_001 \<and>
    b_locations other_buyer = b_locations buyer_001 \<and>
    b_facility_type other_buyer = b_facility_type buyer_001 \<and>
    s_products other_seller = s_products seller_001) \<and>
   other_buyer \<noteq> buyer_001 \<and> other_seller \<noteq> seller_001 \<and>
   calculate_compatibility_score default_weights other_buyer other_seller =
     calculate_compatibility_score default_weights buyer_001 seller_001"
proof -
  have h: "b_interests other_buyer = b_interests buyer_001"
    "b_investment_amount other_buyer = b_investment_amount buyer_001"
    "b_locations other_buyer = b_locations buyer_001"
    "b_facility_type other_buyer = b_facility_type buyer_001"
    "s_products other_seller = s_products seller_001"
    by (simp_all add: other_buyer_def other_seller_def)
  have d: "other_buyer \<noteq> buyer_001" "other_seller \<noteq> seller_001"
    by (simp_all add: other_buyer_def other_seller_def buyer_001_def seller_001_def)
  show ?thesis
    by (intro conjI h d score_depends_only_on_scored_fields [OF h, of default_weights])
qed

end
